theory Spec2Isabelle
  imports Main "HOL-Library.AList" "HOL-Library.Char_ord" "HOL-Library.List_Lexorder"
begin

section \<open>Values, records and the platform\<close>

text \<open>
  The store of \<^verbatim>\<open>src/exercises/exercise-15/database.ts\<close> keeps JSON objects in a
  line-oriented log file. A field value is a JavaScript value; numbers are modelled as
  integers (the integers of magnitude below 2^53, which JavaScript holds exactly and
  prints in decimal), strings as lists of 8-bit characters (code units below 256). A
  record \<open>T\<close> is an object: its own properties in enumeration order.
\<close>

datatype jsval =
    JUndefined
  | JNull
  | JBool bool
  | JNum int
  | JStr string
  | JArr "jsval list"
  | JObj "(string \<times> jsval) list"

type_synonym jsobject = "(string \<times> jsval) list"

text \<open>\<^verbatim>\<open>data[key]\<close>: the property's value, \<^verbatim>\<open>undefined\<close> when the object has none.\<close>

definition get_field :: "jsobject \<Rightarrow> string \<Rightarrow> jsval" where
  "get_field obj key = (case map_of obj key of Some v \<Rightarrow> v | None \<Rightarrow> JUndefined)"

text \<open>
  \<^verbatim>\<open>JSON.parse\<close>, \<^verbatim>\<open>JSON.stringify\<close> and \<^verbatim>\<open>Array.prototype.sort\<close> are built-ins of the
  JavaScript engine, not code of the repository: the operations take them as the fields
  of a \<open>platform\<close>. \<open>JSON_parse\<close> returns \<open>None\<close> where the built-in throws a
  SyntaxError. The comparator handed to \<open>Array_sort\<close> returns a number whose sign orders
  its two arguments.
\<close>

record platform =
  JSON_parse :: "string \<Rightarrow> jsobject option"
  JSON_stringify :: "jsobject \<Rightarrow> string"
  Array_sort :: "(jsobject \<Rightarrow> jsobject \<Rightarrow> int) \<Rightarrow> jsobject list \<Rightarrow> jsobject list"

section \<open>String built-ins used by the log reader and writer\<close>

definition newline :: char where
  "newline = CHR 0x0A"

text \<open>\<^verbatim>\<open>s.split("\n")\<close>: the pieces between newlines; the empty string gives one empty piece.\<close>

fun split_newline :: "string \<Rightarrow> string list" where
  "split_newline [] = [[]]"
| "split_newline (c # cs) =
     (if c = newline then [] # split_newline cs
      else (case split_newline cs of
              [] \<Rightarrow> [[c]]
            | l # ls \<Rightarrow> (c # l) # ls))"

text \<open>\<^verbatim>\<open>lines.join("\n")\<close>.\<close>

fun join_newline :: "string list \<Rightarrow> string" where
  "join_newline [] = []"
| "join_newline [l] = l"
| "join_newline (l # m # ls) = l @ newline # join_newline (m # ls)"

text \<open>
  The characters \<^verbatim>\<open>String.prototype.trim\<close> strips, among the code units below 256: tab,
  line feed, vertical tab, form feed, carriage return, space and no-break space.
\<close>

definition is_whitespace :: "char \<Rightarrow> bool" where
  "is_whitespace c =
     (c = CHR 0x09 \<or> c = CHR 0x0A \<or> c = CHR 0x0B \<or> c = CHR 0x0C \<or> c = CHR 0x0D
      \<or> c = CHR 0x20 \<or> c = CHR 0xA0)"

definition trim :: "string \<Rightarrow> string" where
  "trim s = rev (dropWhile is_whitespace (rev (dropWhile is_whitespace s)))"

text \<open>\<^verbatim>\<open>line.startsWith("E")\<close> and \<^verbatim>\<open>line.substr(1)\<close>.\<close>

definition startsWith_E :: "string \<Rightarrow> bool" where
  "startsWith_E line = (case line of [] \<Rightarrow> False | c # _ \<Rightarrow> c = CHR ''E'')"

definition substr1 :: "string \<Rightarrow> string" where
  "substr1 line = drop 1 line"

section \<open>The store: file system, records, errors\<close>

datatype record_type = E | D

record DatabaseRecord =
  type :: record_type
  data :: jsobject

record Database =
  filename :: string
  fullTextSearchFieldNames :: "string list"

text \<open>
  The file system maps a file name to the file's text. \<open>StorageIOError\<close> is the rejection of
  \<^verbatim>\<open>fs.readFile\<close> on a missing file, \<open>ParseError\<close> the SyntaxError of \<^verbatim>\<open>JSON.parse\<close>.
\<close>

type_synonym filesystem = "string \<rightharpoonup> string"

datatype error = StorageIOError | ParseError | PatternError

text \<open>The text of a record type in a template literal.\<close>

fun type_text :: "record_type \<Rightarrow> string" where
  "type_text E = ''E''"
| "type_text D = ''D''"

subsection \<open>readFromFile\<close>

text \<open>
  One line of the log: the tag is \<open>E\<close> when the line starts with \<open>E\<close> and \<open>D\<close> otherwise, the
  rest of the line is parsed.
\<close>

definition parse_line :: "platform \<Rightarrow> string \<Rightarrow> error + DatabaseRecord" where
  "parse_line P line =
     (case JSON_parse P (substr1 line) of
        None \<Rightarrow> Inl ParseError
      | Some d \<Rightarrow> Inr \<lparr>type = (if startsWith_E line then E else D), data = d\<rparr>)"

text \<open>\<^verbatim>\<open>lines.map(...)\<close> with a callback that may throw: the first throw ends the map.\<close>

fun map_lines :: "platform \<Rightarrow> string list \<Rightarrow> error + DatabaseRecord list" where
  "map_lines P [] = Inr []"
| "map_lines P (l # ls) =
     (case parse_line P l of
        Inl e \<Rightarrow> Inl e
      | Inr r \<Rightarrow> (case map_lines P ls of Inl e \<Rightarrow> Inl e | Inr rs \<Rightarrow> Inr (r # rs)))"

definition read_text :: "platform \<Rightarrow> string \<Rightarrow> error + DatabaseRecord list" where
  "read_text P fileContent =
     map_lines P (filter (\<lambda>line. 0 < length (trim line)) (split_newline fileContent))"

definition readFromFile ::
  "platform \<Rightarrow> Database \<Rightarrow> filesystem \<Rightarrow> (error + DatabaseRecord list) \<times> filesystem" where
  "readFromFile P db fs =
     (case fs (filename db) of
        None \<Rightarrow> (Inl StorageIOError, fs)
      | Some fileContent \<Rightarrow> (read_text P fileContent, fs))"

subsection \<open>writeToFile\<close>

definition record_line :: "platform \<Rightarrow> DatabaseRecord \<Rightarrow> string" where
  "record_line P r = type_text (type r) @ JSON_stringify P (data r)"

definition dbString :: "platform \<Rightarrow> DatabaseRecord list \<Rightarrow> string" where
  "dbString P records = join_newline (map (record_line P) records) @ [newline]"

definition writeToFile :: "platform \<Rightarrow> Database \<Rightarrow> DatabaseRecord list \<Rightarrow> filesystem \<Rightarrow> filesystem" where
  "writeToFile P db records fs = fs(filename db \<mapsto> dbString P records)"

section \<open>Built-ins on values\<close>

text \<open>
  \<^verbatim>\<open>a === b\<close>. Primitive values are equal when they are the same value. Arrays and objects
  are equal only when they are the same object: a field of a record is built afresh by
  \<^verbatim>\<open>JSON.parse\<close> at every read of the log, so it is never the object a query holds.
\<close>

fun is_primitive :: "jsval \<Rightarrow> bool" where
  "is_primitive (JArr _) = False"
| "is_primitive (JObj _) = False"
| "is_primitive _ = True"

definition strict_equal :: "jsval \<Rightarrow> jsval \<Rightarrow> bool" where
  "strict_equal a b = (is_primitive a \<and> a = b)"

text \<open>\<^verbatim>\<open>values.includes(field)\<close>: some element is the searched value.\<close>

definition array_includes :: "jsval list \<Rightarrow> jsval \<Rightarrow> bool" where
  "array_includes values field = list_ex (\<lambda>v. strict_equal v field) values"

text \<open>Truthiness, as \<^verbatim>\<open>if (pInclude)\<close> tests it.\<close>

fun truthy :: "jsval \<Rightarrow> bool" where
  "truthy JUndefined = False"
| "truthy JNull = False"
| "truthy (JBool b) = b"
| "truthy (JNum n) = (n \<noteq> 0)"
| "truthy (JStr s) = (s \<noteq> [])"
| "truthy (JArr _) = True"
| "truthy (JObj _) = True"

text \<open>The decimal text of a number.\<close>

fun digit_char :: "nat \<Rightarrow> char" where
  "digit_char n = char_of (48 + n)"

fun nat_text :: "nat \<Rightarrow> string" where
  "nat_text n = (if n < 10 then [digit_char n] else nat_text (n div 10) @ [digit_char (n mod 10)])"

definition int_text :: "int \<Rightarrow> string" where
  "int_text i = (if i < 0 then CHR ''-'' # nat_text (nat (- i)) else nat_text (nat i))"

fun join_comma :: "string list \<Rightarrow> string" where
  "join_comma [] = []"
| "join_comma [l] = l"
| "join_comma (l # m # ls) = l @ CHR '','' # join_comma (m # ls)"

text \<open>
  The conversion of a value to a string (\<^verbatim>\<open>String(v)\<close>), which \<^verbatim>\<open>RegExp.prototype.test\<close>
  applies to its argument: an array is its elements' texts joined by commas, with
  \<^verbatim>\<open>null\<close> and \<^verbatim>\<open>undefined\<close> elements empty; a plain object is \<^verbatim>\<open>[object Object]\<close>.
\<close>

fun to_string :: "jsval \<Rightarrow> string" where
  "to_string JUndefined = ''undefined''"
| "to_string JNull = ''null''"
| "to_string (JBool b) = (if b then ''true'' else ''false'')"
| "to_string (JNum n) = int_text n"
| "to_string (JStr s) = s"
| "to_string (JArr vs) =
     join_comma (map (\<lambda>v. if v = JUndefined \<or> v = JNull then [] else to_string v) vs)"
| "to_string (JObj _) = ''[object Object]''"

text \<open>
  \<^verbatim>\<open>a > b\<close>. Two numbers compare as numbers, two strings by their code units. Otherwise
  both sides are converted to numbers: \<^verbatim>\<open>undefined\<close> is NaN, which compares false with
  everything; \<^verbatim>\<open>null\<close> is 0, \<^verbatim>\<open>false\<close> 0 and \<^verbatim>\<open>true\<close> 1. The conversion of a string or an
  object that meets a value of another kind is not modelled: \<open>to_number\<close> answers as for
  NaN there.
\<close>

fun to_number :: "jsval \<Rightarrow> int option" where
  "to_number JNull = Some 0"
| "to_number (JBool b) = Some (if b then 1 else 0)"
| "to_number (JNum n) = Some n"
| "to_number _ = None"

fun greater_than :: "jsval \<Rightarrow> jsval \<Rightarrow> bool" where
  "greater_than (JNum x) (JNum y) = (y < x)"
| "greater_than (JStr s) (JStr t) = (t < s)"
| "greater_than a b =
     (case (to_number a, to_number b) of (Some x, Some y) \<Rightarrow> y < x | _ \<Rightarrow> False)"

section \<open>Regular expressions of the full-text search\<close>

text \<open>
  \<^verbatim>\<open>new RegExp(source, "i")\<close> for the fragment of the pattern language this development
  covers: \<^verbatim>\<open>\b\<close> (a word boundary), \<^verbatim>\<open>.\<close> (any character but a line terminator) and
  characters that stand for themselves. A source with any other syntax character is
  outside the fragment: \<open>parse_pattern\<close> gives \<open>None\<close> (the built-in either throws a
  SyntaxError or builds a pattern this development has no meaning for).
\<close>

datatype pattern_item = Literal char | AnyChar | WordBoundary

definition backslash :: char where
  "backslash = CHR 0x5C"

definition is_syntax_char :: "char \<Rightarrow> bool" where
  "is_syntax_char c = (c = backslash \<or> c \<in> set ''^$.*+?()[]{}|'')"

fun parse_pattern :: "string \<Rightarrow> pattern_item list option" where
  "parse_pattern [] = Some []"
| "parse_pattern (c # cs) =
     (if c = backslash then
        (case cs of
           [] \<Rightarrow> None
         | b # rest \<Rightarrow>
             if b = CHR ''b'' then map_option (Cons WordBoundary) (parse_pattern rest)
             else None)
      else if c = CHR ''.'' then map_option (Cons AnyChar) (parse_pattern cs)
      else if is_syntax_char c then None
      else map_option (Cons (Literal c)) (parse_pattern cs))"

text \<open>
  The canonical form of a character under the flag \<^verbatim>\<open>i\<close>: its upper case (for code units
  below 256: the ASCII letters, and the Latin-1 letters from 0xE0 to 0xFE but 0xF7).
\<close>

definition canonicalize :: "char \<Rightarrow> char" where
  "canonicalize c =
     (let n = (of_char c :: nat) in
      if (97 \<le> n \<and> n \<le> 122) \<or> (224 \<le> n \<and> n \<le> 254 \<and> n \<noteq> 247) then char_of (n - 32)
      else c)"

text \<open>The characters of \<^verbatim>\<open>\w\<close>: ASCII letters, digits and the underscore.\<close>

definition is_word_char :: "char \<Rightarrow> bool" where
  "is_word_char c =
     (let n = (of_char c :: nat) in
      (48 \<le> n \<and> n \<le> 57) \<or> (65 \<le> n \<and> n \<le> 90) \<or> (97 \<le> n \<and> n \<le> 122) \<or> n = 95)"

definition is_line_terminator :: "char \<Rightarrow> bool" where
  "is_line_terminator c = (c = CHR 0x0A \<or> c = CHR 0x0D)"

text \<open>
  \<^verbatim>\<open>\b\<close> holds at a position when exactly one of the characters left and right of it is a
  word character (no character counts as not a word character).
\<close>

definition is_word_opt :: "char option \<Rightarrow> bool" where
  "is_word_opt c = (case c of None \<Rightarrow> False | Some x \<Rightarrow> is_word_char x)"

definition at_word_boundary :: "char option \<Rightarrow> string \<Rightarrow> bool" where
  "at_word_boundary prev rest =
     (is_word_opt prev \<noteq> is_word_opt (case rest of [] \<Rightarrow> None | x # _ \<Rightarrow> Some x))"

text \<open>
  \<open>match_here items prev rest\<close>: the items match at the position that has \<open>prev\<close> as
  the character in front of it and \<open>rest\<close> as the text from it on.
\<close>

fun match_here :: "pattern_item list \<Rightarrow> char option \<Rightarrow> string \<Rightarrow> bool" where
  "match_here [] prev rest = True"
| "match_here (WordBoundary # items) prev rest =
     (at_word_boundary prev rest \<and> match_here items prev rest)"
| "match_here (Literal c # items) prev [] = False"
| "match_here (Literal c # items) prev (x # rest) =
     (canonicalize c = canonicalize x \<and> match_here items (Some x) rest)"
| "match_here (AnyChar # items) prev [] = False"
| "match_here (AnyChar # items) prev (x # rest) =
     (\<not> is_line_terminator x \<and> match_here items (Some x) rest)"

text \<open>The search of \<^verbatim>\<open>test\<close>: a match at some position of the text, tried left to right.\<close>

fun match_from :: "pattern_item list \<Rightarrow> char option \<Rightarrow> string \<Rightarrow> bool" where
  "match_from items prev [] = match_here items prev []"
| "match_from items prev (x # rest) =
     (match_here items prev (x # rest) \<or> match_from items (Some x) rest)"

definition RegExp_test :: "string \<Rightarrow> jsval \<Rightarrow> error + bool" where
  "RegExp_test source v =
     (case parse_pattern source of
        None \<Rightarrow> Inl PatternError
      | Some items \<Rightarrow> Inr (match_from items None (to_string v)))"

section \<open>The query language\<close>

text \<open>
  A \<^verbatim>\<open>QueryOperator\<close> is an object tested for its keys \<^verbatim>\<open>$eq\<close>, \<^verbatim>\<open>$gt\<close>, \<^verbatim>\<open>$lt\<close>, \<^verbatim>\<open>$in\<close>:
  each key is present with a value, or absent.
\<close>

record QueryOperator =
  q_eq :: "jsval option"
  q_gt :: "int option"
  q_lt :: "int option"
  q_in :: "jsval list option"

text \<open>A \<^verbatim>\<open>Query\<close>: its keys in the order of \<^verbatim>\<open>Object.keys\<close>, each with its operator.\<close>

type_synonym Query = "(string \<times> QueryOperator) list"

text \<open>
  A \<^verbatim>\<open>TopLevelOperator\<close> by the branch its keys select: \<^verbatim>\<open>$and\<close> first, then \<^verbatim>\<open>$or\<close>, then
  \<^verbatim>\<open>$text\<close>, a \<^verbatim>\<open>Query\<close> otherwise.
\<close>

datatype TopLevelOperator =
    And "TopLevelOperator list"
  | Or "TopLevelOperator list"
  | Text string
  | Fields Query

definition operatorToPredicate :: "QueryOperator \<Rightarrow> jsval \<Rightarrow> bool" where
  "operatorToPredicate query field =
     (case q_eq query of
        Some v \<Rightarrow> strict_equal field v
      | None \<Rightarrow>
          (case (q_lt query, field) of
             (Some n, JNum x) \<Rightarrow> x < n
           | _ \<Rightarrow>
               (case (q_gt query, field) of
                  (Some n, JNum x) \<Rightarrow> x > n
                | _ \<Rightarrow>
                    (case q_in query of
                       Some values \<Rightarrow> array_includes values field
                     | None \<Rightarrow> False))))"

definition queryToPredicate :: "Query \<Rightarrow> jsobject \<Rightarrow> bool" where
  "queryToPredicate query d =
     list_all (\<lambda>(key, operator). operatorToPredicate operator (get_field d key)) query"

text \<open>
  \<^verbatim>\<open>texts.some(text => new RegExp(`\\b${s}\\b`, "i").test(text))\<close>: the pattern is built
  for each text in turn, and the first text that matches ends the search.
\<close>

definition text_source :: "string \<Rightarrow> string" where
  "text_source s = [backslash, CHR ''b''] @ s @ [backslash, CHR ''b'']"

fun some_text :: "string \<Rightarrow> jsval list \<Rightarrow> error + bool" where
  "some_text s [] = Inr False"
| "some_text s (v # vs) =
     (case RegExp_test (text_source s) v of
        Inl e \<Rightarrow> Inl e
      | Inr True \<Rightarrow> Inr True
      | Inr False \<Rightarrow> some_text s vs)"

text \<open>
  \<open>every_predicate\<close> and \<open>some_predicate\<close> are \<^verbatim>\<open>every\<close> and \<^verbatim>\<open>some\<close> over the children of a
  node: they stop at the first child that decides the result, and a child that throws
  ends the evaluation.
\<close>

fun topLevelPredicate :: "Database \<Rightarrow> TopLevelOperator \<Rightarrow> jsobject \<Rightarrow> error + bool"
  and every_predicate :: "Database \<Rightarrow> TopLevelOperator list \<Rightarrow> jsobject \<Rightarrow> error + bool"
  and some_predicate :: "Database \<Rightarrow> TopLevelOperator list \<Rightarrow> jsobject \<Rightarrow> error + bool" where
  "topLevelPredicate db (And qs) d = every_predicate db qs d"
| "topLevelPredicate db (Or qs) d = some_predicate db qs d"
| "topLevelPredicate db (Text s) d =
     some_text s (map (\<lambda>fieldName. get_field d fieldName) (fullTextSearchFieldNames db))"
| "topLevelPredicate db (Fields query) d = Inr (queryToPredicate query d)"
| "every_predicate db [] d = Inr True"
| "every_predicate db (q # qs) d =
     (case topLevelPredicate db q d of
        Inl e \<Rightarrow> Inl e
      | Inr False \<Rightarrow> Inr False
      | Inr True \<Rightarrow> every_predicate db qs d)"
| "some_predicate db [] d = Inr False"
| "some_predicate db (q # qs) d =
     (case topLevelPredicate db q d of
        Inl e \<Rightarrow> Inl e
      | Inr True \<Rightarrow> Inr True
      | Inr False \<Rightarrow> some_predicate db qs d)"

section \<open>find\<close>

record QueryOptions =
  sort_option :: "(string \<times> int) list option"
  projection :: "(string \<times> jsval) list option"

text \<open>\<^verbatim>\<open>contents.filter((data) => predicate(data))\<close> with a predicate that may throw.\<close>

fun filter_predicate :: "(jsobject \<Rightarrow> error + bool) \<Rightarrow> jsobject list \<Rightarrow> error + jsobject list" where
  "filter_predicate p [] = Inr []"
| "filter_predicate p (d # ds) =
     (case p d of
        Inl e \<Rightarrow> Inl e
      | Inr b \<Rightarrow>
          (case filter_predicate p ds of
             Inl e \<Rightarrow> Inl e
           | Inr rs \<Rightarrow> Inr (if b then d # rs else rs)))"

text \<open>The comparator of a sort pass: \<^verbatim>\<open>(a, b) => a[sKey] > b[sKey] ? 1 * sOrder : -1 * sOrder\<close>.\<close>

definition sort_comparator :: "string \<Rightarrow> int \<Rightarrow> jsobject \<Rightarrow> jsobject \<Rightarrow> int" where
  "sort_comparator sKey sOrder a b =
     (if greater_than (get_field a sKey) (get_field b sKey) then 1 * sOrder else - 1 * sOrder)"

text \<open>One pass per entry of the sort mapping, in the order of \<^verbatim>\<open>Object.entries\<close>.\<close>

definition sort_passes :: "platform \<Rightarrow> (string \<times> int) list \<Rightarrow> jsobject list \<Rightarrow> jsobject list" where
  "sort_passes P entries results =
     fold (\<lambda>(sKey, sOrder) rs. Array_sort P (sort_comparator sKey sOrder) rs) entries results"

text \<open>The projection of one result: \<^verbatim>\<open>if (pInclude) newResult[key] = result[key]\<close> per entry.\<close>

definition project :: "(string \<times> jsval) list \<Rightarrow> jsobject \<Rightarrow> jsobject" where
  "project entries result =
     fold (\<lambda>(pKey, pInclude) newResult.
             if truthy pInclude then AList.update pKey (get_field result pKey) newResult
             else newResult)
       entries []"

definition shape_results :: "platform \<Rightarrow> QueryOptions option \<Rightarrow> jsobject list \<Rightarrow> jsobject list" where
  "shape_results P options results =
     (let sorted =
        (case options of
           None \<Rightarrow> results
         | Some opts \<Rightarrow>
             (case sort_option opts of
                None \<Rightarrow> results
              | Some entries \<Rightarrow> sort_passes P entries results))
      in (case options of
            None \<Rightarrow> sorted
          | Some opts \<Rightarrow>
              (case projection opts of
                 None \<Rightarrow> sorted
               | Some entries \<Rightarrow> map (project entries) sorted)))"

definition find_db ::
  "platform \<Rightarrow> Database \<Rightarrow> TopLevelOperator \<Rightarrow> QueryOptions option \<Rightarrow> filesystem
   \<Rightarrow> (error + jsobject list) \<times> filesystem" where
  "find_db P db query options fs =
     (case readFromFile P db fs of
        (Inl e, fs1) \<Rightarrow> (Inl e, fs1)
      | (Inr records, fs1) \<Rightarrow>
          (let contents = map data (filter (\<lambda>record. type record = E) records) in
           case filter_predicate (topLevelPredicate db query) contents of
             Inl e \<Rightarrow> (Inl e, fs1)
           | Inr results \<Rightarrow> (Inr (shape_results P options results), fs1)))"

section \<open>delete and insert\<close>

text \<open>
  The state a mutating call works on: the file system and the counter \<^verbatim>\<open>_locks\<close> of the
  store's mutex. The calls are taken one at a time, each after the earlier one has
  settled: \<^verbatim>\<open>await this.mutex.lock()\<close> then resumes exactly when no earlier call still holds
  the mutex, that is when \<^verbatim>\<open>_locks\<close> was 0; otherwise the call stays pending for ever.
  A call that throws after taking the mutex never reaches \<^verbatim>\<open>unlock()\<close>.
\<close>

record store =
  files :: filesystem
  locks :: nat

datatype completion = Resolved | Rejected error | Pending

text \<open>\<^verbatim>\<open>fs.writeFileSync(name, text, {flag: "a"})\<close>: the text is added at the end of the file.\<close>

definition appendToFile :: "string \<Rightarrow> string \<Rightarrow> filesystem \<Rightarrow> filesystem" where
  "appendToFile name text fs =
     fs(name \<mapsto> (case fs name of None \<Rightarrow> [] | Some fileContent \<Rightarrow> fileContent) @ text)"

definition delete_db :: "platform \<Rightarrow> Database \<Rightarrow> TopLevelOperator \<Rightarrow> store \<Rightarrow> completion \<times> store" where
  "delete_db P db query st =
     (if 0 < locks st then (Pending, st\<lparr>locks := locks st + 1\<rparr>)
      else
        (case readFromFile P db (files st) of
           (Inl e, fs1) \<Rightarrow> (Rejected e, \<lparr>files = fs1, locks = 1\<rparr>)
         | (Inr records, fs1) \<Rightarrow>
             (case find_db P db query None fs1 of
                (Inl e, fs2) \<Rightarrow> (Rejected e, \<lparr>files = fs2, locks = 1\<rparr>)
              | (Inr found, fs2) \<Rightarrow>
                  (let queryResults = map (JSON_stringify P) found;
                       newRecords =
                         map (\<lambda>record.
                                \<lparr>type = (if JSON_stringify P (data record) \<in> set queryResults
                                          then D else type record),
                                 data = data record\<rparr>)
                           records
                   in (Resolved, \<lparr>files = writeToFile P db newRecords fs2, locks = 0\<rparr>)))))"

definition insert_db :: "platform \<Rightarrow> Database \<Rightarrow> jsobject \<Rightarrow> store \<Rightarrow> completion \<times> store" where
  "insert_db P db d st =
     (if 0 < locks st then (Pending, st\<lparr>locks := locks st + 1\<rparr>)
      else
        (case readFromFile P db (files st) of
           (Inl e, fs1) \<Rightarrow> (Rejected e, \<lparr>files = fs1, locks = 1\<rparr>)
         | (Inr records, fs1) \<Rightarrow>
             (let newRecords = records @ [\<lparr>type = E, data = d\<rparr>]
              in (Resolved,
                  \<lparr>files = appendToFile (filename db) (''E'' @ JSON_stringify P d @ [newline]) fs1,
                   locks = 0\<rparr>))))"

section \<open>A concrete platform\<close>

text \<open>
  The theorems below hold for every platform that meets their hypotheses. To evaluate the
  operations on concrete logs, this section gives one platform: \<^verbatim>\<open>JSON.stringify\<close> and
  \<^verbatim>\<open>JSON.parse\<close> on the values of \<open>jsval\<close>, and the sort of the V8 engine for arrays
  of fewer than 64 elements.
\<close>

subsection \<open>JSON.stringify\<close>

definition dquote :: char where
  "dquote = CHR 0x22"

definition hex_digit :: "nat \<Rightarrow> char" where
  "hex_digit n = (if n < 10 then char_of (48 + n) else char_of (87 + n))"

text \<open>A character inside a JSON string: quote, backslash and control characters are escaped.\<close>

definition quote_char :: "char \<Rightarrow> string" where
  "quote_char c =
     (if c = dquote then [backslash, dquote]
      else if c = backslash then [backslash, backslash]
      else if c = CHR 0x08 then [backslash, CHR ''b'']
      else if c = CHR 0x0C then [backslash, CHR ''f'']
      else if c = CHR 0x0A then [backslash, CHR ''n'']
      else if c = CHR 0x0D then [backslash, CHR ''r'']
      else if c = CHR 0x09 then [backslash, CHR ''t'']
      else if (of_char c :: nat) < 32 then
        [backslash, CHR ''u'', CHR ''0'', CHR ''0'',
         hex_digit ((of_char c :: nat) div 16), hex_digit ((of_char c :: nat) mod 16)]
      else [c])"

definition quote :: "string \<Rightarrow> string" where
  "quote s = dquote # concat (map quote_char s) @ [dquote]"

text \<open>
  The text of a value. An \<^verbatim>\<open>undefined\<close> element of an array is written \<^verbatim>\<open>null\<close>, a property
  whose value is \<^verbatim>\<open>undefined\<close> is left out.
\<close>

fun json_text :: "jsval \<Rightarrow> string"
  and elements_text :: "jsval list \<Rightarrow> string list"
  and members_text :: "(string \<times> jsval) list \<Rightarrow> string list" where
  "json_text JUndefined = ''null''"
| "json_text JNull = ''null''"
| "json_text (JBool b) = (if b then ''true'' else ''false'')"
| "json_text (JNum n) = int_text n"
| "json_text (JStr s) = quote s"
| "json_text (JArr vs) = ''['' @ join_comma (elements_text vs) @ '']''"
| "json_text (JObj kvs) = ''{'' @ join_comma (members_text kvs) @ ''}''"
| "elements_text [] = []"
| "elements_text (v # vs) = json_text v # elements_text vs"
| "members_text [] = []"
| "members_text ((k, v) # kvs) =
     (if v = JUndefined then members_text kvs
      else (quote k @ '':'' @ json_text v) # members_text kvs)"

definition json_stringify :: "jsobject \<Rightarrow> string" where
  "json_stringify obj = json_text (JObj obj)"

subsection \<open>JSON.parse\<close>

text \<open>
  A parser of JSON texts whose numbers are integers and whose characters are code units
  below 256; \<open>None\<close> is the SyntaxError (or a text outside these bounds). The fuel bounds
  the nesting and the number of members; \<open>json_parse\<close> gives enough for the whole text.
\<close>

definition is_json_whitespace :: "char \<Rightarrow> bool" where
  "is_json_whitespace c = (c = CHR 0x20 \<or> c = CHR 0x09 \<or> c = CHR 0x0A \<or> c = CHR 0x0D)"

definition skip_whitespace :: "string \<Rightarrow> string" where
  "skip_whitespace s = dropWhile is_json_whitespace s"

definition is_digit :: "char \<Rightarrow> bool" where
  "is_digit c = (48 \<le> (of_char c :: nat) \<and> (of_char c :: nat) \<le> 57)"

definition digits_value :: "string \<Rightarrow> nat" where
  "digits_value ds = foldl (\<lambda>acc c. 10 * acc + ((of_char c :: nat) - 48)) 0 ds"

definition parse_number :: "string \<Rightarrow> (jsval \<times> string) option" where
  "parse_number s =
     (let negative = (case s of [] \<Rightarrow> False | c # _ \<Rightarrow> c = CHR ''-'');
          s1 = (if negative then drop 1 s else s);
          ds = takeWhile is_digit s1;
          rest = dropWhile is_digit s1
      in if ds = [] then None
         else if 1 < length ds \<and> hd ds = CHR ''0'' then None
         else if (case rest of [] \<Rightarrow> False | c # _ \<Rightarrow> c = CHR ''.'' \<or> c = CHR ''e'' \<or> c = CHR ''E'')
           then None
         else Some (JNum (if negative then - int (digits_value ds) else int (digits_value ds)), rest))"

definition hex_value :: "char \<Rightarrow> nat option" where
  "hex_value c =
     (let n = (of_char c :: nat) in
      if 48 \<le> n \<and> n \<le> 57 then Some (n - 48)
      else if 97 \<le> n \<and> n \<le> 102 then Some (n - 87)
      else if 65 \<le> n \<and> n \<le> 70 then Some (n - 55)
      else None)"

definition unescape :: "char \<Rightarrow> char option" where
  "unescape e =
     (if e = dquote then Some dquote
      else if e = backslash then Some backslash
      else if e = CHR ''/'' then Some CHR ''/''
      else if e = CHR ''b'' then Some (CHR 0x08)
      else if e = CHR ''f'' then Some (CHR 0x0C)
      else if e = CHR ''n'' then Some (CHR 0x0A)
      else if e = CHR ''r'' then Some (CHR 0x0D)
      else if e = CHR ''t'' then Some (CHR 0x09)
      else None)"

definition unicode_escape :: "char \<Rightarrow> char \<Rightarrow> char \<Rightarrow> char \<Rightarrow> char option" where
  "unicode_escape h1 h2 h3 h4 =
     (case (hex_value h1, hex_value h2, hex_value h3, hex_value h4) of
        (Some a, Some b, Some c, Some d) \<Rightarrow>
          if a = 0 \<and> b = 0 then Some (char_of (16 * c + d)) else None
      | _ \<Rightarrow> None)"

definition add_char :: "char \<Rightarrow> (string \<times> string) option \<Rightarrow> (string \<times> string) option" where
  "add_char c r = (case r of None \<Rightarrow> None | Some (s, rest) \<Rightarrow> Some (c # s, rest))"

text \<open>The characters of a string after its opening quote, up to the closing quote.\<close>

fun string_body :: "string \<Rightarrow> (string \<times> string) option" where
  "string_body [] = None"
| "string_body (c # cs) =
     (if c = dquote then Some ([], cs)
      else if c = backslash then
        (case cs of
           [] \<Rightarrow> None
         | e # rest \<Rightarrow>
             if e = CHR ''u'' then
               (case rest of
                  h1 # h2 # h3 # h4 # rest' \<Rightarrow>
                    (case unicode_escape h1 h2 h3 h4 of
                       None \<Rightarrow> None
                     | Some x \<Rightarrow> add_char x (string_body rest'))
                | _ \<Rightarrow> None)
             else
               (case unescape e of
                  None \<Rightarrow> None
                | Some x \<Rightarrow> add_char x (string_body rest)))
      else if (of_char c :: nat) < 32 then None
      else add_char c (string_body cs))"

text \<open>
  A property named twice keeps its first place and its last value, as \<^verbatim>\<open>JSON.parse\<close>
  builds the object.
\<close>

definition make_object :: "(string \<times> jsval) list \<Rightarrow> jsval" where
  "make_object members = JObj (fold (\<lambda>(k, v) obj. AList.update k v obj) members [])"

definition literal :: "string \<Rightarrow> jsval \<Rightarrow> string \<Rightarrow> (jsval \<times> string) option" where
  "literal word v s =
     (if take (length word) s = word then Some (v, drop (length word) s) else None)"

fun parse_value :: "nat \<Rightarrow> string \<Rightarrow> (jsval \<times> string) option"
  and parse_elements :: "nat \<Rightarrow> string \<Rightarrow> (jsval list \<times> string) option"
  and parse_members :: "nat \<Rightarrow> string \<Rightarrow> ((string \<times> jsval) list \<times> string) option" where
  "parse_value 0 s = None"
| "parse_value (Suc n) s =
     (case skip_whitespace s of
        [] \<Rightarrow> None
      | c # cs \<Rightarrow>
          if c = CHR ''{'' then
            (case skip_whitespace cs of
               [] \<Rightarrow> None
             | c' # rest \<Rightarrow>
                 if c' = CHR ''}'' then Some (JObj [], rest)
                 else (case parse_members n cs of
                         None \<Rightarrow> None
                       | Some (members, rest') \<Rightarrow> Some (make_object members, rest')))
          else if c = CHR ''['' then
            (case skip_whitespace cs of
               [] \<Rightarrow> None
             | c' # rest \<Rightarrow>
                 if c' = CHR '']'' then Some (JArr [], rest)
                 else (case parse_elements n cs of
                         None \<Rightarrow> None
                       | Some (vs, rest') \<Rightarrow> Some (JArr vs, rest')))
          else if c = dquote then
            (case string_body cs of None \<Rightarrow> None | Some (str, rest) \<Rightarrow> Some (JStr str, rest))
          else if c = CHR ''n'' then literal ''null'' JNull (c # cs)
          else if c = CHR ''t'' then literal ''true'' (JBool True) (c # cs)
          else if c = CHR ''f'' then literal ''false'' (JBool False) (c # cs)
          else parse_number (c # cs))"
| "parse_elements 0 s = None"
| "parse_elements (Suc n) s =
     (case parse_value n s of
        None \<Rightarrow> None
      | Some (v, rest) \<Rightarrow>
          (case skip_whitespace rest of
             [] \<Rightarrow> None
           | c # rest' \<Rightarrow>
               if c = CHR '']'' then Some ([v], rest')
               else if c = CHR '','' then
                 (case parse_elements n rest' of
                    None \<Rightarrow> None
                  | Some (vs, rest'') \<Rightarrow> Some (v # vs, rest''))
               else None))"
| "parse_members 0 s = None"
| "parse_members (Suc n) s =
     (case skip_whitespace s of
        [] \<Rightarrow> None
      | q # cs \<Rightarrow>
          if q \<noteq> dquote then None
          else
            (case string_body cs of
               None \<Rightarrow> None
             | Some (k, rest) \<Rightarrow>
                 (case skip_whitespace rest of
                    [] \<Rightarrow> None
                  | colon # rest1 \<Rightarrow>
                      if colon \<noteq> CHR '':'' then None
                      else
                        (case parse_value n rest1 of
                           None \<Rightarrow> None
                         | Some (v, rest2) \<Rightarrow>
                             (case skip_whitespace rest2 of
                                [] \<Rightarrow> None
                              | c # rest3 \<Rightarrow>
                                  if c = CHR ''}'' then Some ([(k, v)], rest3)
                                  else if c = CHR '','' then
                                    (case parse_members n rest3 of
                                       None \<Rightarrow> None
                                     | Some (members, rest4) \<Rightarrow> Some ((k, v) # members, rest4))
                                  else None)))))"

text \<open>The whole text is one value, an object (the store casts it to a record).\<close>

definition json_parse :: "string \<Rightarrow> jsobject option" where
  "json_parse s =
     (case parse_value (2 * length s + 2) s of
        Some (JObj obj, rest) \<Rightarrow> if skip_whitespace rest = [] then Some obj else None
      | _ \<Rightarrow> None)"

subsection \<open>Array.prototype.sort\<close>

text \<open>
  V8 sorts an array of fewer than 64 elements as one run: it finds the longest run at the
  start of the array (descending when the comparator puts the second element ahead of the
  first, and then reversed), and puts each later element into the sorted part by a binary
  search. The comparator is called as \<open>cmp x y\<close> with \<open>x\<close> the later element; a result
  below 0 means \<open>x\<close> goes ahead of \<open>y\<close>.
\<close>

fun run_length :: "('a \<Rightarrow> 'a \<Rightarrow> int) \<Rightarrow> bool \<Rightarrow> 'a \<Rightarrow> 'a list \<Rightarrow> nat" where
  "run_length cmp descending previous [] = 0"
| "run_length cmp descending previous (x # xs) =
     (let order = cmp x previous in
      if (if descending then 0 \<le> order else order < 0) then 0
      else Suc (run_length cmp descending x xs))"

function binary_search :: "('a \<Rightarrow> 'a \<Rightarrow> int) \<Rightarrow> 'a \<Rightarrow> 'a list \<Rightarrow> nat \<Rightarrow> nat \<Rightarrow> nat" where
  "binary_search cmp pivot arr left right =
     (if left < right then
        (let mid = left + (right - left) div 2 in
         if cmp pivot (arr ! mid) < 0 then binary_search cmp pivot arr left mid
         else binary_search cmp pivot arr (mid + 1) right)
      else left)"
  by pat_completeness auto
termination
  by (relation "measure (\<lambda>(cmp, pivot, arr, left, right). right - left)") auto

definition binary_insert :: "('a \<Rightarrow> 'a \<Rightarrow> int) \<Rightarrow> 'a \<Rightarrow> 'a list \<Rightarrow> 'a list" where
  "binary_insert cmp pivot arr =
     (let left = binary_search cmp pivot arr 0 (length arr)
      in take left arr @ pivot # drop left arr)"

definition v8_sort :: "('a \<Rightarrow> 'a \<Rightarrow> int) \<Rightarrow> 'a list \<Rightarrow> 'a list" where
  "v8_sort cmp xs =
     (case xs of
        [] \<Rightarrow> []
      | [x] \<Rightarrow> [x]
      | x # y # rest \<Rightarrow>
          (let descending = (cmp y x < 0);
               n = 2 + run_length cmp descending y rest;
               run = (if descending then rev (take n xs) else take n xs)
           in fold (binary_insert cmp) (drop n xs) run))"

definition node_platform :: platform where
  "node_platform =
     \<lparr>JSON_parse = json_parse, JSON_stringify = json_stringify, Array_sort = v8_sort\<rparr>"

section \<open>The full-text search in the words of the specification\<close>

text \<open>
  The specification says that \<^verbatim>\<open>$text\<close> matches when the search string occurs in a field
  as a whole-word, case-insensitive substring. \<open>whole_word_occurrence s text\<close> states this:
  at some position of the text the next characters are those of \<open>s\<close>, ignoring case, and
  the occurrence starts and ends at a word boundary of the text.
\<close>

definition char_before :: "string \<Rightarrow> nat \<Rightarrow> char option" where
  "char_before text i = (if i = 0 then None else Some (text ! (i - 1)))"

definition word_boundary_at :: "string \<Rightarrow> nat \<Rightarrow> bool" where
  "word_boundary_at text i = at_word_boundary (char_before text i) (drop i text)"

definition same_ignoring_case :: "string \<Rightarrow> string \<Rightarrow> bool" where
  "same_ignoring_case a b = (map canonicalize a = map canonicalize b)"

definition whole_word_occurrence :: "string \<Rightarrow> string \<Rightarrow> bool" where
  "whole_word_occurrence s text =
     (\<exists>i\<in>set [0..<Suc (length text)].
        same_ignoring_case (take (length s) (drop i text)) s
        \<and> word_boundary_at text i
        \<and> word_boundary_at text (i + length s))"

section \<open>Tombstones\<close>



section \<open>The records JSON can represent\<close>

text \<open>
  A value that \<^verbatim>\<open>JSON.stringify\<close> writes in full: \<^verbatim>\<open>undefined\<close> occurs nowhere in it, and the
  properties of an object have different names. \<open>need\<close> is the fuel \<open>parse_value\<close> uses on
  the text of a value.
\<close>

fun json_wf :: "jsval \<Rightarrow> bool"
  and wf_elements :: "jsval list \<Rightarrow> bool"
  and wf_members :: "(string \<times> jsval) list \<Rightarrow> bool" where
  "json_wf JUndefined = False"
| "json_wf JNull = True"
| "json_wf (JBool b) = True"
| "json_wf (JNum n) = True"
| "json_wf (JStr s) = True"
| "json_wf (JArr vs) = wf_elements vs"
| "json_wf (JObj kvs) = (distinct (map fst kvs) \<and> wf_members kvs)"
| "wf_elements [] = True"
| "wf_elements (v # vs) = (json_wf v \<and> wf_elements vs)"
| "wf_members [] = True"
| "wf_members ((k, v) # kvs) = (json_wf v \<and> wf_members kvs)"

fun need :: "jsval \<Rightarrow> nat"
  and need_elements :: "jsval list \<Rightarrow> nat"
  and need_members :: "(string \<times> jsval) list \<Rightarrow> nat" where
  "need (JArr vs) = Suc (need_elements vs)"
| "need (JObj kvs) = Suc (need_members kvs)"
| "need JUndefined = 1"
| "need JNull = 1"
| "need (JBool b) = 1"
| "need (JNum n) = 1"
| "need (JStr s) = 1"
| "need_elements [] = 0"
| "need_elements (v # vs) = Suc (max (need v) (need_elements vs))"
| "need_members [] = 0"
| "need_members ((k, v) # kvs) = Suc (max (need v) (need_members kvs))"

text \<open>What may follow the text of a number: nothing that would continue it.\<close>

definition follows_value :: "string \<Rightarrow> bool" where
  "follows_value r =
     (case r of
        [] \<Rightarrow> True
      | c # _ \<Rightarrow> \<not> is_digit c \<and> c \<noteq> CHR ''.'' \<and> c \<noteq> CHR ''e'' \<and> c \<noteq> CHR ''E'')"

section \<open>Predicate trees with plain search strings\<close>

text \<open>
  A predicate tree is plain when no search string of a \<^verbatim>\<open>$text\<close> node in it has a syntax
  character of the pattern language.
\<close>

fun plain_tree :: "TopLevelOperator \<Rightarrow> bool"
  and plain_trees :: "TopLevelOperator list \<Rightarrow> bool" where
  "plain_tree (And qs) = plain_trees qs"
| "plain_tree (Or qs) = plain_trees qs"
| "plain_tree (Text s) = list_all (\<lambda>c. \<not> is_syntax_char c) s"
| "plain_tree (Fields query) = True"
| "plain_trees [] = True"
| "plain_trees (q # qs) = (plain_tree q \<and> plain_trees qs)"

section \<open>The log reader and writer\<close>

lemma split_newline_not_Nil: "split_newline s \<noteq> []"
  by (induction s) (auto split: list.splits)

lemma split_newline_append:
  "split_newline (a @ newline # b) = split_newline a @ split_newline b"
proof (induction a)
  case Nil
  then show ?case by simp
next
  case (Cons c a)
  then show ?case
    using split_newline_not_Nil [of a] by (auto split: list.splits)
qed

lemma split_newline_single: "newline \<notin> set l \<Longrightarrow> split_newline l = [l]"
  by (induction l) (auto split: list.splits)

lemma split_join_newline:
  "\<forall>l\<in>set ls. newline \<notin> set l \<Longrightarrow> ls \<noteq> [] \<Longrightarrow> split_newline (join_newline ls) = ls"
proof (induction ls rule: join_newline.induct)
  case 1
  then show ?case by simp
next
  case (2 l)
  then show ?case by (simp add: split_newline_single)
next
  case (3 l m ls)
  then show ?case by (simp add: split_newline_append split_newline_single)
qed

lemma dropWhile_keeps_other:
  "(\<exists>c\<in>set (dropWhile Q s). \<not> Q c) \<longleftrightarrow> (\<exists>c\<in>set s. \<not> Q c)"
  by (induction s) auto

lemma trim_nonempty: "0 < length (trim s) \<longleftrightarrow> (\<exists>c\<in>set s. \<not> is_whitespace c)"
proof -
  have "0 < length (trim s) \<longleftrightarrow>
        dropWhile is_whitespace (rev (dropWhile is_whitespace s)) \<noteq> []"
    by (simp add: trim_def)
  also have "\<dots> \<longleftrightarrow> (\<exists>c\<in>set (dropWhile is_whitespace s). \<not> is_whitespace c)"
    by (simp add: dropWhile_eq_Nil_conv)
  also have "\<dots> \<longleftrightarrow> (\<exists>c\<in>set s. \<not> is_whitespace c)"
    by (rule dropWhile_keeps_other)
  finally show ?thesis .
qed


lemma record_line_nonblank: "0 < length (trim (record_line P r))"
  unfolding trim_nonempty record_line_def
  by (cases "type r") (auto simp: is_whitespace_def)

lemma record_line_no_newline:
  "newline \<notin> set (JSON_stringify P (data r)) \<Longrightarrow> newline \<notin> set (record_line P r)"
  by (cases "type r") (auto simp: record_line_def newline_def)

lemma parse_record_line:
  "JSON_parse P (JSON_stringify P (data r)) = Some (data r) \<Longrightarrow>
   parse_line P (record_line P r) = Inr r"
  by (cases "type r") (auto simp: parse_line_def record_line_def substr1_def startsWith_E_def)

lemma map_lines_record_lines:
  "\<forall>r\<in>set rs. JSON_parse P (JSON_stringify P (data r)) = Some (data r) \<Longrightarrow>
   map_lines P (map (record_line P) rs) = Inr rs"
  by (induction rs) (auto simp: parse_record_line)

lemma read_text_dbString:
  assumes parse: "\<forall>r\<in>set rs. JSON_parse P (JSON_stringify P (data r)) = Some (data r)"
    and nl: "\<forall>r\<in>set rs. newline \<notin> set (JSON_stringify P (data r))"
  shows "read_text P (dbString P rs) = Inr rs"
proof (cases "rs = []")
  case True
  then show ?thesis by (simp add: read_text_def dbString_def trim_def)
next
  case False
  have lines: "\<forall>l\<in>set (map (record_line P) rs). newline \<notin> set l"
    using nl by (auto simp: record_line_no_newline)
  have "split_newline (join_newline (map (record_line P) rs) @ newline # []) =
        map (record_line P) rs @ [[]]"
    using split_join_newline [OF lines] False by (simp add: split_newline_append)
  moreover have "filter (\<lambda>line. 0 < length (trim line)) (map (record_line P) rs @ [[]]) =
                 map (record_line P) rs"
    using record_line_nonblank [of P] by (simp add: filter_map o_def trim_def)
  ultimately show ?thesis
    using map_lines_record_lines [OF parse] by (simp add: read_text_def dbString_def)
qed

text \<open>
  C3. Writing a sequence of tagged records with \<open>writeToFile\<close> and reading the file back
  with \<open>readFromFile\<close> gives the same records with the same tags in the same order, for
  records that \<^verbatim>\<open>JSON.parse\<close> reads back from their \<^verbatim>\<open>JSON.stringify\<close> text (which holds no
  raw newline).
\<close>

theorem write_read_roundtrip:
  assumes "\<forall>r\<in>set records. JSON_parse P (JSON_stringify P (data r)) = Some (data r)"
    and "\<forall>r\<in>set records. newline \<notin> set (JSON_stringify P (data r))"
  shows "readFromFile P db (writeToFile P db records fs) =
         (Inr records, writeToFile P db records fs)"
  using read_text_dbString [OF assms] by (simp add: readFromFile_def writeToFile_def)

theorem write_read_roundtrip_witness:
  "fst (readFromFile node_platform \<lparr>filename = ''db.txt'', fullTextSearchFieldNames = []\<rparr>
         (writeToFile node_platform \<lparr>filename = ''db.txt'', fullTextSearchFieldNames = []\<rparr>
            [\<lparr>type = E, data = [(''name'', JStr ''a''), (''age'', JNum 3)]\<rparr>,
             \<lparr>type = D, data = [(''name'', JStr ''b''), (''tags'', JArr [JNull, JBool True])]\<rparr>]
            Map.empty)) =
   Inr [\<lparr>type = E, data = [(''name'', JStr ''a''), (''age'', JNum 3)]\<rparr>,
        \<lparr>type = D, data = [(''name'', JStr ''b''), (''tags'', JArr [JNull, JBool True])]\<rparr>]"
proof -
  let ?rs = "[\<lparr>type = E, data = [(''name'', JStr ''a''), (''age'', JNum 3)]\<rparr>,
              \<lparr>type = D, data = [(''name'', JStr ''b''), (''tags'', JArr [JNull, JBool True])]\<rparr>]"
  have parse: "\<forall>r\<in>set ?rs.
      JSON_parse node_platform (JSON_stringify node_platform (data r)) = Some (data r)"
    by code_simp
  have nl: "\<forall>r\<in>set ?rs. newline \<notin> set (JSON_stringify node_platform (data r))"
    by code_simp
  show ?thesis
    using write_read_roundtrip [OF parse nl] by simp
qed

section \<open>find reads only\<close>

lemma readFromFile_files: "snd (readFromFile P db fs) = fs"
  by (simp add: readFromFile_def split: option.splits)

text \<open>
  C10. \<open>find\<close> never writes to the log file: whatever the predicate tree and the options,
  and whether it returns or throws, the file system after the call is the one before it.
\<close>

theorem find_db_reads_only: "snd (find_db P db query options fs) = fs"
proof -
  obtain r where r: "readFromFile P db fs = (r, fs)"
    using readFromFile_files [of P db fs] by (cases "readFromFile P db fs") simp
  show ?thesis
    by (simp add: find_db_def r Let_def split: sum.splits)
qed

section \<open>Operators, queries and predicate trees\<close>

lemma array_includes_iff:
  "array_includes values field \<longleftrightarrow> is_primitive field \<and> field \<in> set values"
  by (auto simp: array_includes_def list_ex_iff strict_equal_def)

text \<open>
  C6. The operator evaluator. With \<^verbatim>\<open>$eq\<close> present the result is \<^verbatim>\<open>field === v\<close>, whatever
  other keys the operator has. \<^verbatim>\<open>{$in: values}\<close> is membership of the field in the values
  (under \<^verbatim>\<open>===\<close>). \<^verbatim>\<open>{$lt: n}\<close> and \<^verbatim>\<open>{$gt: n}\<close> compare a field that is a number and are
  false for any other field. An operator with none of the keys is false. The evaluator
  is a total function to \<open>bool\<close>: no case throws.
\<close>

theorem operatorToPredicate_cases:
  "operatorToPredicate \<lparr>q_eq = Some v, q_gt = g, q_lt = l, q_in = i\<rparr> field = strict_equal field v
   \<and> operatorToPredicate \<lparr>q_eq = None, q_gt = None, q_lt = None, q_in = Some values\<rparr> field =
       (is_primitive field \<and> field \<in> set values)
   \<and> operatorToPredicate \<lparr>q_eq = None, q_gt = None, q_lt = Some n, q_in = None\<rparr> field =
       (case field of JNum x \<Rightarrow> x < n | _ \<Rightarrow> False)
   \<and> operatorToPredicate \<lparr>q_eq = None, q_gt = Some n, q_lt = None, q_in = None\<rparr> field =
       (case field of JNum x \<Rightarrow> n < x | _ \<Rightarrow> False)
   \<and> operatorToPredicate \<lparr>q_eq = None, q_gt = None, q_lt = None, q_in = None\<rparr> field = False"
  by (cases field) (simp_all add: operatorToPredicate_def array_includes_iff)

theorem operatorToPredicate_cases_witness:
  "operatorToPredicate \<lparr>q_eq = Some (JStr ''a''), q_gt = None, q_lt = Some 5, q_in = None\<rparr>
     (JStr ''a'')
   \<and> operatorToPredicate \<lparr>q_eq = None, q_gt = None, q_lt = None, q_in = Some [JNum 1, JNum 2]\<rparr>
       (JNum 2)
   \<and> operatorToPredicate \<lparr>q_eq = None, q_gt = None, q_lt = Some 5, q_in = None\<rparr> (JNum 3)
   \<and> \<not> operatorToPredicate \<lparr>q_eq = None, q_gt = None, q_lt = Some 5, q_in = None\<rparr> (JStr ''3'')
   \<and> \<not> operatorToPredicate \<lparr>q_eq = None, q_gt = Some 5, q_lt = None, q_in = None\<rparr> JUndefined
   \<and> \<not> operatorToPredicate \<lparr>q_eq = None, q_gt = None, q_lt = None, q_in = None\<rparr> (JNum 3)"
  using operatorToPredicate_cases [of "JStr ''a''" None "Some 5" None "JStr ''a''"]
    operatorToPredicate_cases [of _ _ _ _ "JNum 2" "[JNum 1, JNum 2]"]
    operatorToPredicate_cases [of _ _ _ _ "JNum 3" _ 5]
    operatorToPredicate_cases [of _ _ _ _ "JStr ''3''" _ 5]
    operatorToPredicate_cases [of _ _ _ _ "JUndefined" _ 5]
  by (simp add: strict_equal_def)

lemma queryToPredicate_iff:
  "queryToPredicate query d \<longleftrightarrow>
   (\<forall>(key, operator)\<in>set query. operatorToPredicate operator (get_field d key))"
  by (simp add: queryToPredicate_def list_all_iff)

text \<open>
  C7. The compiled query is true exactly when every field named in the query passes its
  operator against the record's value for that field; the empty query matches every
  record; two records that agree on the fields the query names get the same answer.
\<close>

theorem queryToPredicate_every_field:
  "(queryToPredicate query d \<longleftrightarrow>
      (\<forall>(key, operator)\<in>set query. operatorToPredicate operator (get_field d key)))
   \<and> queryToPredicate [] d
   \<and> ((\<forall>key\<in>set (map fst query). get_field d key = get_field d' key) \<longrightarrow>
        queryToPredicate query d = queryToPredicate query d')"
proof (intro conjI impI)
  show "queryToPredicate query d \<longleftrightarrow>
        (\<forall>(key, operator)\<in>set query. operatorToPredicate operator (get_field d key))"
    by (rule queryToPredicate_iff)
  show "queryToPredicate [] d"
    by (simp add: queryToPredicate_def)
  assume same: "\<forall>key\<in>set (map fst query). get_field d key = get_field d' key"
  then have "\<And>key operator. (key, operator) \<in> set query \<Longrightarrow>
               get_field d key = get_field d' key"
    by force
  then show "queryToPredicate query d = queryToPredicate query d'"
    unfolding queryToPredicate_iff by auto
qed

theorem queryToPredicate_every_field_witness:
  "queryToPredicate [(''age'', \<lparr>q_eq = None, q_gt = Some 1, q_lt = None, q_in = None\<rparr>)]
     [(''name'', JStr ''a''), (''age'', JNum 3)]
   \<and> queryToPredicate [(''age'', \<lparr>q_eq = None, q_gt = Some 1, q_lt = None, q_in = None\<rparr>)]
       [(''age'', JNum 3), (''name'', JStr ''b''), (''city'', JNull)]"
proof -
  let ?q = "[(''age'', \<lparr>q_eq = None, q_gt = Some 1, q_lt = None, q_in = None\<rparr>)]"
  let ?d = "[(''name'', JStr ''a''), (''age'', JNum 3)]"
  let ?d' = "[(''age'', JNum 3), (''name'', JStr ''b''), (''city'', JNull)]"
  have same: "\<forall>key\<in>set (map fst ?q). get_field ?d key = get_field ?d' key"
    by (simp add: get_field_def)
  have "queryToPredicate ?q ?d"
    by (simp add: queryToPredicate_def operatorToPredicate_def get_field_def)
  moreover have "queryToPredicate ?q ?d = queryToPredicate ?q ?d'"
    using queryToPredicate_every_field [of ?q ?d ?d'] same by blast
  ultimately show ?thesis by simp
qed






section \<open>The full-text search\<close>

lemma parse_pattern_literals:
  "\<forall>c\<in>set s. \<not> is_syntax_char c \<Longrightarrow>
   parse_pattern (s @ rest) = map_option ((@) (map Literal s)) (parse_pattern rest)"
proof (induction s)
  case Nil
  then show ?case by (simp add: option.map_ident)
next
  case (Cons c s)
  then have c: "c \<noteq> backslash" "c \<noteq> CHR ''.''" "\<not> is_syntax_char c"
    by (auto simp: is_syntax_char_def)
  show ?case
    using Cons c by (simp add: option.map_comp o_def)
qed

lemma parse_pattern_text_source:
  assumes "\<forall>c\<in>set s. \<not> is_syntax_char c"
  shows "parse_pattern (text_source s) = Some (WordBoundary # map Literal s @ [WordBoundary])"
proof -
  have "parse_pattern [backslash, CHR ''b''] = Some [WordBoundary]"
    by simp
  then have "parse_pattern (s @ [backslash, CHR ''b'']) = Some (map Literal s @ [WordBoundary])"
    using parse_pattern_literals [OF assms, of "[backslash, CHR ''b'']"] by simp
  then show ?thesis
    by (simp add: text_source_def)
qed

lemma match_here_literals:
  "match_here (map Literal s @ items) prev rest \<longleftrightarrow>
   same_ignoring_case (take (length s) rest) s
   \<and> match_here items (if s = [] then prev else Some (rest ! (length s - 1)))
        (drop (length s) rest)"
proof (induction s arbitrary: prev rest)
  case Nil
  then show ?case by (simp add: same_ignoring_case_def)
next
  case (Cons c s)
  show ?case
  proof (cases rest)
    case Nil
    then show ?thesis by (simp add: same_ignoring_case_def)
  next
    case (Cons x rest')
    have nth: "(x # rest') ! length s = (if s = [] then x else rest' ! (length s - 1))"
      by (cases s) simp_all
    show ?thesis
      using Cons.IH [of "Some x" rest'] nth
      by (auto simp: Cons same_ignoring_case_def)
  qed
qed

lemma bex_upto: "(\<exists>i\<in>set [0..<Suc n]. Q i) \<longleftrightarrow> (\<exists>i\<le>n. Q i)"
  by (auto simp del: upt_Suc simp add: less_Suc_eq_le)

lemma match_from_iff:
  "match_from items prev str \<longleftrightarrow>
   (\<exists>i\<le>length str.
      match_here items (if i = 0 then prev else Some (str ! (i - 1))) (drop i str))"
proof (induction str arbitrary: prev)
  case Nil
  then show ?case by simp
next
  case (Cons x rest)
  have "(\<exists>i\<le>length (x # rest).
           match_here items (if i = 0 then prev else Some ((x # rest) ! (i - 1)))
             (drop i (x # rest))) \<longleftrightarrow>
        match_here items prev (x # rest)
        \<or> (\<exists>j\<le>length rest.
              match_here items (if j = 0 then Some x else Some (rest ! (j - 1))) (drop j rest))"
    (is "?L \<longleftrightarrow> ?A \<or> ?B")
  proof
    assume ?L
    then obtain i where i: "i \<le> length (x # rest)"
      and m: "match_here items (if i = 0 then prev else Some ((x # rest) ! (i - 1)))
                (drop i (x # rest))"
      by blast
    show "?A \<or> ?B"
    proof (cases i)
      case 0
      then show ?thesis using m by simp
    next
      case (Suc j)
      then have "match_here items (if j = 0 then Some x else Some (rest ! (j - 1))) (drop j rest)"
        using m by (cases j) simp_all
      moreover have "j \<le> length rest" using i Suc by simp
      ultimately show ?thesis by blast
    qed
  next
    assume "?A \<or> ?B"
    then show ?L
    proof
      assume ?A
      then have "match_here items (if (0::nat) = 0 then prev else Some ((x # rest) ! (0 - 1)))
                   (drop 0 (x # rest))"
        by simp
      then show ?L by blast
    next
      assume ?B
      then obtain j where j: "j \<le> length rest"
        and m: "match_here items (if j = 0 then Some x else Some (rest ! (j - 1))) (drop j rest)"
        by blast
      have "match_here items (if Suc j = 0 then prev else Some ((x # rest) ! (Suc j - 1)))
              (drop (Suc j) (x # rest))"
        using m by (cases j) simp_all
      moreover have "Suc j \<le> length (x # rest)" using j by simp
      ultimately show ?L by blast
    qed
  qed
  then show ?case
    using Cons.IH [of "Some x"] by simp
qed

lemma match_word_iff:
  "match_from (WordBoundary # map Literal s @ [WordBoundary]) None str \<longleftrightarrow>
   whole_word_occurrence s str"
proof -
  have step: "match_here (WordBoundary # map Literal s @ [WordBoundary]) (char_before str i) (drop i str)
        \<longleftrightarrow> same_ignoring_case (take (length s) (drop i str)) s
            \<and> word_boundary_at str i \<and> word_boundary_at str (i + length s)"
    if i: "i \<le> length str" for i
  proof (cases "same_ignoring_case (take (length s) (drop i str)) s")
    case False
    then show ?thesis by (simp add: match_here_literals)
  next
    case True
    then have "length (take (length s) (drop i str)) = length s"
      unfolding same_ignoring_case_def by (metis length_map)
    then have len: "i + length s \<le> length str"
      using i by simp
    have before_end: "(if s = [] then char_before str i else Some (drop i str ! (length s - 1))) =
          char_before str (i + length s)"
    proof (cases "s = []")
      case True
      then show ?thesis by simp
    next
      case False
      then have "i + (length s - 1) = i + length s - 1" by (cases s) simp_all
      then have "drop i str ! (length s - 1) = str ! (i + length s - 1)"
        using i by simp
      then show ?thesis using False by (simp add: char_before_def)
    qed
    show ?thesis
      using True before_end
      by (simp add: match_here_literals word_boundary_at_def add.commute)
  qed
  have "match_from (WordBoundary # map Literal s @ [WordBoundary]) None str \<longleftrightarrow>
        (\<exists>i\<le>length str.
           match_here (WordBoundary # map Literal s @ [WordBoundary]) (char_before str i)
             (drop i str))"
    unfolding match_from_iff char_before_def ..
  also have "\<dots> \<longleftrightarrow>
        (\<exists>i\<le>length str. same_ignoring_case (take (length s) (drop i str)) s
            \<and> word_boundary_at str i \<and> word_boundary_at str (i + length s))"
    using step by blast
  also have "\<dots> \<longleftrightarrow> whole_word_occurrence s str"
    unfolding whole_word_occurrence_def bex_upto ..
  finally show ?thesis .
qed

lemma some_text_literal:
  assumes "\<forall>c\<in>set s. \<not> is_syntax_char c"
  shows "some_text s vs = Inr (\<exists>v\<in>set vs. whole_word_occurrence s (to_string v))"
proof (induction vs)
  case Nil
  then show ?case by simp
next
  case (Cons v vs)
  have "RegExp_test (text_source s) v = Inr (whole_word_occurrence s (to_string v))"
    by (simp add: RegExp_test_def parse_pattern_text_source [OF assms] match_word_iff)
  then show ?case
    using Cons by (cases "whole_word_occurrence s (to_string v)") simp_all
qed

text \<open>
  C5, amended. For a search string with no syntax character of the pattern language,
  \<^verbatim>\<open>{$text: s}\<close> is true exactly when \<open>s\<close> occurs as a whole-word, case-insensitive substring
  of the text of at least one full-text-search field of the record.
\<close>

theorem text_predicate_literal:
  assumes "\<forall>c\<in>set s. \<not> is_syntax_char c"
  shows "topLevelPredicate db (Text s) d =
         Inr (\<exists>fieldName\<in>set (fullTextSearchFieldNames db).
                whole_word_occurrence s (to_string (get_field d fieldName)))"
  using some_text_literal [OF assms] by simp

theorem text_predicate_literal_witness:
  "topLevelPredicate \<lparr>filename = ''db.txt'', fullTextSearchFieldNames = [''notes'']\<rparr>
     (Text ''cat'') [(''notes'', JStr ''The cat sat'')] = Inr True
   \<and> topLevelPredicate \<lparr>filename = ''db.txt'', fullTextSearchFieldNames = [''notes'']\<rparr>
     (Text ''CAT'') [(''notes'', JStr ''category'')] = Inr False"
proof -
  let ?db = "\<lparr>filename = ''db.txt'', fullTextSearchFieldNames = [''notes'']\<rparr>"
  have lit: "\<forall>c\<in>set ''cat''. \<not> is_syntax_char c" "\<forall>c\<in>set ''CAT''. \<not> is_syntax_char c"
    by code_simp+
  have yes: "whole_word_occurrence ''cat'' (to_string (get_field [(''notes'', JStr ''The cat sat'')] ''notes''))"
    by code_simp
  have no: "\<not> whole_word_occurrence ''CAT'' (to_string (get_field [(''notes'', JStr ''category'')] ''notes''))"
    by code_simp
  show ?thesis
    using text_predicate_literal [OF lit(1), of ?db "[(''notes'', JStr ''The cat sat'')]"]
      text_predicate_literal [OF lit(2), of ?db "[(''notes'', JStr ''category'')]"] yes no
    by simp
qed

text \<open>
  The claim as stated fails for a search string with a syntax character: \<^verbatim>\<open>c.t\<close> is not
  a substring of \<^verbatim>\<open>cat\<close>, and the predicate is true.
\<close>

theorem text_predicate_counterexample:
  "topLevelPredicate \<lparr>filename = ''db.txt'', fullTextSearchFieldNames = [''notes'']\<rparr>
     (Text ''c.t'') [(''notes'', JStr ''cat'')] = Inr True
   \<and> \<not> (\<exists>fieldName\<in>set [''notes''].
           whole_word_occurrence ''c.t'' (to_string (get_field [(''notes'', JStr ''cat'')] fieldName)))"
  by code_simp

text \<open>A plain predicate tree evaluates to a boolean on every record: nothing in it throws.\<close>

lemma plain_tree_total:
  "plain_tree q \<Longrightarrow> \<exists>b. topLevelPredicate db q d = Inr b"
  "plain_trees qs \<Longrightarrow> \<exists>b. every_predicate db qs d = Inr b"
  "plain_trees qs \<Longrightarrow> \<exists>b. some_predicate db qs d = Inr b"
proof (induction db q d and db qs d and db qs d
    rule: topLevelPredicate_every_predicate_some_predicate.induct)
  case (3 db s d)
  then have "\<forall>c\<in>set s. \<not> is_syntax_char c" by (simp add: list_all_iff)
  then show ?case using some_text_literal by simp
next
  case (6 db q qs d)
  then obtain b where "topLevelPredicate db q d = Inr b" by auto
  then show ?case using 6 by (cases b) auto
next
  case (8 db q qs d)
  then obtain b where "topLevelPredicate db q d = Inr b" by auto
  then show ?case using 8 by (cases b) auto
qed auto

section \<open>insert\<close>









text \<open>
  A mutating call that throws leaves the mutex taken: the calls after it stay pending and
  write nothing.
\<close>

lemma mutex_kept_after_failure:
  assumes "fst (readFromFile P db (files st)) = Inl e" and "locks st = 0"
  shows "insert_db P db d st = (Rejected e, \<lparr>files = files st, locks = 1\<rparr>)"
    and "delete_db P db p st = (Rejected e, \<lparr>files = files st, locks = 1\<rparr>)"
    and "fst (insert_db P db d' (snd (insert_db P db d st))) = Pending"
    and "fst (delete_db P db p' (snd (insert_db P db d st))) = Pending"
proof -
  have r: "readFromFile P db (files st) = (Inl e, files st)"
    using assms(1) readFromFile_files [of P db "files st"]
    by (cases "readFromFile P db (files st)") simp
  show ins: "insert_db P db d st = (Rejected e, \<lparr>files = files st, locks = 1\<rparr>)"
    using assms(2) by (simp add: insert_db_def r)
  show "delete_db P db p st = (Rejected e, \<lparr>files = files st, locks = 1\<rparr>)"
    using assms(2) by (simp add: delete_db_def r)
  show "fst (insert_db P db d' (snd (insert_db P db d st))) = Pending"
    unfolding ins by (simp add: insert_db_def)
  show "fst (delete_db P db p' (snd (insert_db P db d st))) = Pending"
    unfolding ins by (simp add: delete_db_def)
qed

text \<open>
  The logs the store writes end with a newline: the text of a full rewrite, and a log
  after an \<open>insert\<close>.
\<close>

lemma dbString_terminated: "dbString P records \<noteq> [] \<and> last (dbString P records) = newline"
  by (simp add: dbString_def)

lemma appendToFile_terminated:
  "\<exists>text. appendToFile name (line @ [newline]) fs name = Some text \<and> text \<noteq> [] \<and> last text = newline"
  by (simp add: appendToFile_def)

section \<open>delete\<close>







section \<open>The sort passes of find\<close>

lemma greater_than_irrefl: "\<not> greater_than v v"
  by (cases v) (simp_all split: option.splits)

text \<open>
  The comparator never answers 0: for two records with the same value in the sort field
  it answers \<open>- sOrder\<close> whichever way round they are given.
\<close>

lemma sort_comparator_ties:
  "get_field a sKey = get_field b sKey \<Longrightarrow>
   sort_comparator sKey sOrder a b = - sOrder \<and> sort_comparator sKey sOrder b a = - sOrder"
  by (simp add: sort_comparator_def greater_than_irrefl)

text \<open>One pass per entry of the sort mapping, in order; the last pass orders the result.\<close>

lemma sort_passes_snoc:
  "sort_passes P (entries @ [(sKey, sOrder)]) results =
   Array_sort P (sort_comparator sKey sOrder) (sort_passes P entries results)"
  by (simp add: sort_passes_def)

text \<open>The example of the specification: ages 3, 1, 2 sorted by \<^verbatim>\<open>age: 1\<close>.\<close>

lemma sort_passes_ages:
  "sort_passes node_platform [(''age'', 1)]
     [[(''age'', JNum 3)], [(''age'', JNum 1)], [(''age'', JNum 2)]] =
   [[(''age'', JNum 1)], [(''age'', JNum 2)], [(''age'', JNum 3)]]"
  by code_simp

text \<open>
  C4. The claim says that records with equal values in the sorted field keep their
  order in a pass, so that earlier sort fields break the ties of the last one. On a log
  of two records with the same age, the comparator of the pass \<^verbatim>\<open>age: 1\<close> puts each record
  in front of the other, and \<open>find\<close> returns the two records in reverse order; sorting by
  \<^verbatim>\<open>name: 1\<close> and then \<^verbatim>\<open>age: 1\<close> returns the names in descending order.
\<close>

theorem find_db_sort_ties:
  \<open>sort_comparator ''age'' 1 [(''age'', JNum 1), (''name'', JStr ''x'')]
       [(''age'', JNum 1), (''name'', JStr ''y'')] = - 1
   \<and> sort_comparator ''age'' 1 [(''age'', JNum 1), (''name'', JStr ''y'')]
       [(''age'', JNum 1), (''name'', JStr ''x'')] = - 1
   \<and> fst (find_db node_platform \<lparr>filename = ''db.txt'', fullTextSearchFieldNames = []\<rparr>
          (Fields []) (Some \<lparr>sort_option = Some [(''age'', 1)], projection = None\<rparr>)
          [''db.txt'' \<mapsto> ''E{"age":1,"name":"x"}\<newline>E{"age":1,"name":"y"}\<newline>'']) =
       Inr [[(''age'', JNum 1), (''name'', JStr ''y'')], [(''age'', JNum 1), (''name'', JStr ''x'')]]
   \<and> fst (find_db node_platform \<lparr>filename = ''db.txt'', fullTextSearchFieldNames = []\<rparr>
          (Fields [])
          (Some \<lparr>sort_option = Some [(''name'', 1), (''age'', 1)], projection = None\<rparr>)
          [''db.txt'' \<mapsto> ''E{"age":1,"name":"x"}\<newline>E{"age":1,"name":"y"}\<newline>'']) =
       Inr [[(''age'', JNum 1), (''name'', JStr ''y'')], [(''age'', JNum 1), (''name'', JStr ''x'')]]\<close>
  by code_simp

section \<open>The concrete JSON codec reads back what it writes\<close>

subsection \<open>Numbers\<close>

lemma of_char_digit_char: "k < 10 \<Longrightarrow> (of_char (digit_char k) :: nat) = 48 + k"
  by simp

lemma is_digit_digit_char: "k < 10 \<Longrightarrow> is_digit (digit_char k)"
  by (simp add: is_digit_def)

declare digit_char.simps [simp del]

lemma nat_text_unfold:
  "nat_text n = (if n < 10 then [digit_char n] else nat_text (n div 10) @ [digit_char (n mod 10)])"
  by (rule nat_text.simps)

declare nat_text.simps [simp del]

lemma nat_text_not_Nil: "nat_text n \<noteq> []"
  by (subst nat_text_unfold) simp

lemma nat_text_digits: "c \<in> set (nat_text n) \<Longrightarrow> is_digit c"
proof (induction n arbitrary: c rule: nat_text.induct)
  case (1 n)
  show ?case
  proof (cases "n < 10")
    case True
    then show ?thesis
      using "1.prems" is_digit_digit_char [of n] by (subst (asm) nat_text_unfold) simp
  next
    case False
    have "n mod 10 < 10" by simp
    then have "is_digit (digit_char (n mod 10))" by (rule is_digit_digit_char)
    then show ?thesis
      using False "1.prems" "1.IH" by (subst (asm) nat_text_unfold) auto
  qed
qed

lemma digits_value_snoc:
  "digits_value (ds @ [c]) = 10 * digits_value ds + ((of_char c :: nat) - 48)"
  by (simp add: digits_value_def)

lemma digits_value_nat_text: "digits_value (nat_text n) = n"
proof (induction n rule: nat_text.induct)
  case (1 n)
  show ?case
  proof (cases "n < 10")
    case True
    then show ?thesis
      using of_char_digit_char [of n] by (subst nat_text_unfold) (simp add: digits_value_def)
  next
    case False
    have "n mod 10 < 10" by simp
    then have "(of_char (digit_char (n mod 10)) :: nat) - 48 = n mod 10"
      using of_char_digit_char [of "n mod 10"] by simp
    then show ?thesis
      using False "1.IH" by (subst nat_text_unfold) (simp add: digits_value_snoc)
  qed
qed

lemma nat_text_leading: "0 < n \<Longrightarrow> hd (nat_text n) \<noteq> CHR ''0''"
proof (induction n rule: nat_text.induct)
  case (1 n)
  show ?case
  proof (cases "n < 10")
    case True
    then have "(of_char (digit_char n) :: nat) = 48 + n" by (rule of_char_digit_char)
    then have "(of_char (digit_char n) :: nat) \<noteq> of_char CHR ''0''" using "1.prems" by simp
    then have "digit_char n \<noteq> CHR ''0''" by metis
    then show ?thesis using True by (subst nat_text_unfold) simp
  next
    case False
    then have "0 < n div 10" by simp
    then show ?thesis
      using False "1.IH" nat_text_not_Nil [of "n div 10"] by (subst nat_text_unfold) simp
  qed
qed

lemma nat_text_long: "1 < length (nat_text n) \<Longrightarrow> 0 < n"
  by (cases "n = 0") (simp_all add: nat_text_unfold [of 0])

lemma takeWhile_digits:
  assumes "\<forall>c\<in>set ds. is_digit c" and "follows_value r"
  shows "takeWhile is_digit (ds @ r) = ds" and "dropWhile is_digit (ds @ r) = r"
proof -
  have r: "takeWhile is_digit r = []" "dropWhile is_digit r = r"
    using assms(2) by (cases r; simp add: follows_value_def)+
  show "takeWhile is_digit (ds @ r) = ds"
    using assms(1) r by (simp add: takeWhile_append2)
  show "dropWhile is_digit (ds @ r) = r"
    using assms(1) r by (simp add: dropWhile_append2)
qed

lemma parse_number_nat_text:
  assumes "follows_value r"
  shows "parse_number (nat_text n @ r) = Some (JNum (int n), r)"
proof -
  obtain c cs where cs: "nat_text n = c # cs"
    using nat_text_not_Nil [of n] by (cases "nat_text n") auto
  have digit: "is_digit c" using nat_text_digits [of c n] cs by simp
  then have not_minus: "c \<noteq> CHR ''-''" by (auto simp: is_digit_def)
  have all: "\<forall>c\<in>set (nat_text n). is_digit c" using nat_text_digits by blast
  have lead: "\<not> (1 < length (nat_text n) \<and> hd (nat_text n) = CHR ''0'')"
    using nat_text_leading [of n] nat_text_long [of n] by auto
  have follow: "\<not> (case r of [] \<Rightarrow> False | c # _ \<Rightarrow> c = CHR ''.'' \<or> c = CHR ''e'' \<or> c = CHR ''E'')"
    using assms by (cases r) (simp_all add: follows_value_def)
  have neg: "(case nat_text n @ r of [] \<Rightarrow> False | c # _ \<Rightarrow> c = CHR ''-'') = False"
    using cs not_minus by simp
  show ?thesis
    unfolding parse_number_def neg Let_def
    using takeWhile_digits [OF all assms] lead follow nat_text_not_Nil [of n]
    by (simp add: digits_value_nat_text)
qed

lemma parse_number_int_text:
  assumes "follows_value r"
  shows "parse_number (int_text i @ r) = Some (JNum i, r)"
proof (cases "i < 0")
  case False
  then show ?thesis
    using parse_number_nat_text [OF assms, of "nat i"] by (simp add: int_text_def)
next
  case True
  have all: "\<forall>c\<in>set (nat_text (nat (- i))). is_digit c" using nat_text_digits by blast
  have lead: "\<not> (1 < length (nat_text (nat (- i))) \<and> hd (nat_text (nat (- i))) = CHR ''0'')"
    using nat_text_leading [of "nat (- i)"] nat_text_long [of "nat (- i)"] by auto
  have follow: "\<not> (case r of [] \<Rightarrow> False | c # _ \<Rightarrow> c = CHR ''.'' \<or> c = CHR ''e'' \<or> c = CHR ''E'')"
    using assms by (cases r) (simp_all add: follows_value_def)
  show ?thesis
    unfolding parse_number_def Let_def int_text_def
    using True takeWhile_digits [OF all assms] lead follow nat_text_not_Nil [of "nat (- i)"]
    by (simp add: digits_value_nat_text)
qed

lemma int_text_first: "\<exists>c cs. int_text i = c # cs \<and> (c = CHR ''-'' \<or> is_digit c)"
proof (cases "i < 0")
  case True
  then show ?thesis by (simp add: int_text_def)
next
  case False
  obtain c cs where cs: "nat_text (nat i) = c # cs"
    using nat_text_not_Nil [of "nat i"] by (cases "nat_text (nat i)") auto
  then have "is_digit c" using nat_text_digits [of c "nat i"] by simp
  then show ?thesis using False cs by (simp add: int_text_def)
qed

subsection \<open>Strings\<close>

lemma hex_value_hex_digit: "k < 16 \<Longrightarrow> hex_value (hex_digit k) = Some k"
  by (simp add: hex_value_def hex_digit_def Let_def)

lemma unicode_escape_control:
  assumes "(of_char c :: nat) < 32"
  shows "unicode_escape CHR ''0'' CHR ''0'' (hex_digit ((of_char c :: nat) div 16))
           (hex_digit ((of_char c :: nat) mod 16)) = Some c"
proof -
  let ?n = "of_char c :: nat"
  have zero: "hex_value CHR ''0'' = Some 0"
    by (simp add: hex_value_def)
  have hi: "hex_value (hex_digit (?n div 16)) = Some (?n div 16)"
    using assms by (intro hex_value_hex_digit) simp
  have lo: "hex_value (hex_digit (?n mod 16)) = Some (?n mod 16)"
    by (intro hex_value_hex_digit) simp
  have "char_of (16 * (?n div 16) + ?n mod 16) = c"
    by simp
  then show ?thesis
    by (simp add: unicode_escape_def zero hi lo)
qed

lemma string_body_quote_char:
  "string_body (quote_char c @ rest) = add_char c (string_body rest)"
proof -
  consider (quote) "c = dquote" | (bs) "c = backslash" | (b) "c = CHR 0x08" | (f) "c = CHR 0x0C"
    | (n) "c = CHR 0x0A" | (r) "c = CHR 0x0D" | (t) "c = CHR 0x09"
    | (control) "c \<noteq> dquote" "c \<noteq> backslash" "c \<noteq> CHR 0x08" "c \<noteq> CHR 0x0C" "c \<noteq> CHR 0x0A"
        "c \<noteq> CHR 0x0D" "c \<noteq> CHR 0x09" "(of_char c :: nat) < 32"
    | (plain) "c \<noteq> dquote" "c \<noteq> backslash" "c \<noteq> CHR 0x08" "c \<noteq> CHR 0x0C" "c \<noteq> CHR 0x0A"
        "c \<noteq> CHR 0x0D" "c \<noteq> CHR 0x09" "\<not> (of_char c :: nat) < 32"
    by (cases "(of_char c :: nat) < 32") auto
  then show ?thesis
  proof cases
    case quote
    then show ?thesis by (simp add: quote_char_def unescape_def dquote_def backslash_def)
  next
    case bs
    then show ?thesis by (simp add: quote_char_def unescape_def dquote_def backslash_def)
  next
    case b
    then show ?thesis by (simp add: quote_char_def unescape_def dquote_def backslash_def)
  next
    case f
    then show ?thesis by (simp add: quote_char_def unescape_def dquote_def backslash_def)
  next
    case n
    then show ?thesis by (simp add: quote_char_def unescape_def dquote_def backslash_def)
  next
    case r
    then show ?thesis by (simp add: quote_char_def unescape_def dquote_def backslash_def)
  next
    case t
    then show ?thesis by (simp add: quote_char_def unescape_def dquote_def backslash_def)
  next
    case control
    have "quote_char c = [backslash, CHR ''u'', CHR ''0'', CHR ''0'',
            hex_digit ((of_char c :: nat) div 16), hex_digit ((of_char c :: nat) mod 16)]"
      using control by (simp add: quote_char_def)
    then show ?thesis
      using unicode_escape_control [OF control(8)]
      by (simp add: dquote_def backslash_def)
  next
    case plain
    then show ?thesis by (simp add: quote_char_def)
  qed
qed

lemma string_body_quoted:
  "string_body (concat (map quote_char s) @ dquote # r) = Some (s, r)"
  by (induction s) (simp_all add: string_body_quote_char add_char_def)

lemma hex_digit_not_newline: "k < 16 \<Longrightarrow> hex_digit k \<noteq> newline"
proof
  assume k: "k < 16" and eq: "hex_digit k = newline"
  have "48 \<le> (of_char (hex_digit k) :: nat)"
    using k by (simp add: hex_digit_def)
  moreover have "(of_char newline :: nat) = 10"
    by (simp add: newline_def)
  ultimately show False using eq by simp
qed

lemma newline_not_in_quote_char: "newline \<notin> set (quote_char c)"
proof (cases "(of_char c :: nat) < 32")
  case True
  then have "hex_digit ((of_char c :: nat) div 16) \<noteq> newline"
    "hex_digit ((of_char c :: nat) mod 16) \<noteq> newline"
    by (intro hex_digit_not_newline; simp)+
  then show ?thesis
    by (auto simp: quote_char_def newline_def dquote_def backslash_def)
next
  case False
  then have "c \<noteq> newline" by (auto simp: newline_def)
  then show ?thesis
    using False by (auto simp: quote_char_def newline_def dquote_def backslash_def)
qed

lemma newline_not_in_quote: "newline \<notin> set (quote s)"
  using newline_not_in_quote_char by (auto simp: quote_def newline_def dquote_def)

subsection \<open>Values\<close>

lemma join_comma_Cons:
  "join_comma (t # ts) = t @ (if ts = [] then [] else CHR '','' # join_comma ts)"
  by (cases ts) simp_all

lemma skip_whitespace_Cons: "\<not> is_json_whitespace c \<Longrightarrow> skip_whitespace (c # cs) = c # cs"
  by (simp add: skip_whitespace_def)

lemma json_text_first:
  "\<exists>c cs. json_text v = c # cs \<and> \<not> is_json_whitespace c \<and> c \<noteq> CHR '']'' \<and> c \<noteq> CHR ''}''"
proof (cases v)
  case (JNum i)
  obtain c cs where "int_text i = c # cs" "c = CHR ''-'' \<or> is_digit c"
    using int_text_first by blast
  then show ?thesis
    using JNum by (auto simp: is_json_whitespace_def is_digit_def)
qed (simp_all add: is_json_whitespace_def quote_def dquote_def)

lemma update_fresh: "k \<notin> fst ` set al \<Longrightarrow> AList.update k v al = al @ [(k, v)]"
  by (induction al) auto

lemma fold_update_distinct:
  "distinct (map fst kvs) \<Longrightarrow> fst ` set kvs \<inter> fst ` set acc = {} \<Longrightarrow>
   fold (\<lambda>(k, v) obj. AList.update k v obj) kvs acc = acc @ kvs"
proof (induction kvs arbitrary: acc)
  case Nil
  then show ?case by simp
next
  case (Cons kv kvs)
  obtain k v where kv: "kv = (k, v)" by (cases kv)
  have fresh: "k \<notin> fst ` set acc" using Cons.prems(2) kv by auto
  have "fst ` set kvs \<inter> fst ` set (acc @ [(k, v)]) = {}"
    using Cons.prems kv by auto
  then show ?case
    using Cons.IH [of "acc @ [(k, v)]"] Cons.prems(1) kv fresh by (simp add: update_fresh)
qed

lemma make_object_distinct: "distinct (map fst kvs) \<Longrightarrow> make_object kvs = JObj kvs"
  using fold_update_distinct [of kvs "[]"] by (simp add: make_object_def)

lemma parse_value_null: "parse_value (Suc n) (''null'' @ r) = Some (JNull, r)"
  by (simp add: skip_whitespace_def is_json_whitespace_def literal_def dquote_def)

lemma parse_value_true: "parse_value (Suc n) (''true'' @ r) = Some (JBool True, r)"
  by (simp add: skip_whitespace_def is_json_whitespace_def literal_def dquote_def)

lemma parse_value_false: "parse_value (Suc n) (''false'' @ r) = Some (JBool False, r)"
  by (simp add: skip_whitespace_def is_json_whitespace_def literal_def dquote_def)

lemma parse_value_number:
  assumes "follows_value r"
  shows "parse_value (Suc n) (int_text i @ r) = Some (JNum i, r)"
proof -
  obtain c cs where c: "int_text i = c # cs" "c = CHR ''-'' \<or> is_digit c"
    using int_text_first by blast
  have other: "\<not> is_json_whitespace c" "c \<noteq> CHR ''{''" "c \<noteq> CHR ''[''" "c \<noteq> dquote"
    "c \<noteq> CHR ''n''" "c \<noteq> CHR ''t''" "c \<noteq> CHR ''f''"
    using c(2) by (auto simp: is_json_whitespace_def is_digit_def dquote_def)
  have "parse_value (Suc n) (c # cs @ r) = parse_number (c # cs @ r)"
    using other by (simp add: skip_whitespace_Cons)
  then show ?thesis
    using parse_number_int_text [OF assms, of i] c(1) by simp
qed

lemma parse_value_string: "parse_value (Suc n) (quote s @ r) = Some (JStr s, r)"
  using string_body_quoted [of s r]
  by (simp add: quote_def skip_whitespace_def is_json_whitespace_def dquote_def)

lemma parse_value_empty_array: "parse_value (Suc n) (''[]'' @ r) = Some (JArr [], r)"
  by (simp add: skip_whitespace_def is_json_whitespace_def dquote_def)

lemma parse_value_empty_object: "parse_value (Suc n) (''{}'' @ r) = Some (JObj [], r)"
  by (simp add: skip_whitespace_def is_json_whitespace_def dquote_def)

lemma parse_value_array:
  assumes "parse_elements n (c # body) = Some (vs, r)"
    and "\<not> is_json_whitespace c" "c \<noteq> CHR '']''"
  shows "parse_value (Suc n) (CHR ''['' # c # body) = Some (JArr vs, r)"
  using assms by (simp add: skip_whitespace_def is_json_whitespace_def)

lemma parse_value_object:
  assumes "parse_members n (c # body) = Some (kvs, r)"
    and "\<not> is_json_whitespace c" "c \<noteq> CHR ''}''" "distinct (map fst kvs)"
  shows "parse_value (Suc n) (CHR ''{'' # c # body) = Some (JObj kvs, r)"
  using assms by (simp add: skip_whitespace_def is_json_whitespace_def make_object_distinct)

lemma parse_elements_last:
  assumes "parse_value n (t @ CHR '']'' # r) = Some (v, CHR '']'' # r)"
  shows "parse_elements (Suc n) (t @ CHR '']'' # r) = Some ([v], r)"
  using assms by (simp add: skip_whitespace_def is_json_whitespace_def)

lemma parse_elements_more:
  assumes "parse_value n (t @ CHR '','' # rest) = Some (v, CHR '','' # rest)"
    and "parse_elements n rest = Some (vs, r)"
  shows "parse_elements (Suc n) (t @ CHR '','' # rest) = Some (v # vs, r)"
  using assms by (simp add: skip_whitespace_def is_json_whitespace_def)

lemma parse_members_last:
  assumes "parse_value n (t @ CHR ''}'' # r) = Some (v, CHR ''}'' # r)"
  shows "parse_members (Suc n) (quote k @ CHR '':'' # t @ CHR ''}'' # r) = Some ([(k, v)], r)"
  using assms string_body_quoted [of k "CHR '':'' # t @ CHR ''}'' # r"]
  by (simp add: quote_def skip_whitespace_def is_json_whitespace_def dquote_def)

lemma parse_members_more:
  assumes "parse_value n (t @ CHR '','' # rest) = Some (v, CHR '','' # rest)"
    and "parse_members n rest = Some (kvs, r)"
  shows "parse_members (Suc n) (quote k @ CHR '':'' # t @ CHR '','' # rest) = Some ((k, v) # kvs, r)"
  using assms string_body_quoted [of k "CHR '':'' # t @ CHR '','' # rest"]
  by (simp add: quote_def skip_whitespace_def is_json_whitespace_def dquote_def)

lemma elements_text_first:
  assumes "vs \<noteq> []"
  shows "\<exists>c cs. join_comma (elements_text vs) = c # cs \<and> \<not> is_json_whitespace c \<and> c \<noteq> CHR '']''"
proof -
  obtain v vs' where vs: "vs = v # vs'" using assms by (cases vs) auto
  obtain c cs where "json_text v = c # cs" "\<not> is_json_whitespace c" "c \<noteq> CHR '']''"
    using json_text_first [of v] by blast
  then show ?thesis
    unfolding vs by (simp add: join_comma_Cons)
qed

lemma members_text_first:
  assumes "wf_members kvs" "kvs \<noteq> []"
  shows "\<exists>cs. join_comma (members_text kvs) = dquote # cs"
proof -
  obtain k v kvs' where kvs: "kvs = (k, v) # kvs'" using assms(2) by (cases kvs) auto
  then have "v \<noteq> JUndefined" using assms(1) by auto
  then show ?thesis
    unfolding kvs by (simp add: join_comma_Cons quote_def)
qed

lemma follows_value_punctuation:
  "follows_value (CHR '']'' # r)" "follows_value (CHR '','' # r)" "follows_value (CHR ''}'' # r)"
  "follows_value []"
  by (simp_all add: follows_value_def is_digit_def)

lemma elements_text_Nil: "elements_text vs = [] \<longleftrightarrow> vs = []"
  by (cases vs) simp_all

lemma members_text_Nil: "wf_members kvs \<Longrightarrow> members_text kvs = [] \<longleftrightarrow> kvs = []"
  by (cases kvs) (auto split: if_splits)

lemma parse_printed:
  "json_wf v \<Longrightarrow> follows_value r \<Longrightarrow> need v \<le> n \<Longrightarrow>
     parse_value n (json_text v @ r) = Some (v, r)"
  "wf_elements vs \<Longrightarrow> vs \<noteq> [] \<Longrightarrow> need_elements vs \<le> n \<Longrightarrow>
     parse_elements n (join_comma (elements_text vs) @ CHR '']'' # r) = Some (vs, r)"
  "wf_members kvs \<Longrightarrow> kvs \<noteq> [] \<Longrightarrow> need_members kvs \<le> n \<Longrightarrow>
     parse_members n (join_comma (members_text kvs) @ CHR ''}'' # r) = Some (kvs, r)"
proof (induction v and vs and kvs arbitrary: n r and n r and n r
    rule: json_text_elements_text_members_text.induct)
  case 1
  then show ?case by simp
next
  case 2
  then obtain m where "n = Suc m" by (cases n) auto
  then show ?case using parse_value_null [of m r] by simp
next
  case (3 b)
  then obtain m where "n = Suc m" by (cases n) auto
  then show ?case
    using parse_value_true [of m r] parse_value_false [of m r] by (cases b) simp_all
next
  case (4 i)
  then obtain m where "n = Suc m" by (cases n) auto
  then show ?case using parse_value_number [OF "4.prems"(2), of m i] by simp
next
  case (5 s)
  then obtain m where "n = Suc m" by (cases n) auto
  then show ?case using parse_value_string [of m s r] by simp
next
  case (6 vs)
  obtain m where m: "n = Suc m" "need_elements vs \<le> m"
    using "6.prems"(3) by (cases n) auto
  show ?case
  proof (cases "vs = []")
    case True
    then show ?thesis using parse_value_empty_array [of m r] m by simp
  next
    case False
    obtain c cs where c: "join_comma (elements_text vs) = c # cs"
      "\<not> is_json_whitespace c" "c \<noteq> CHR '']''"
      using elements_text_first [OF False] by blast
    have "parse_elements m (c # cs @ CHR '']'' # r) = Some (vs, r)"
      using "6.IH" [of m r] "6.prems"(1) False m(2) c(1) by simp
    then have "parse_value (Suc m) (CHR ''['' # c # cs @ CHR '']'' # r) = Some (JArr vs, r)"
      using c(2,3) by (rule parse_value_array)
    then show ?thesis using m(1) c(1) by simp
  qed
next
  case (7 kvs)
  obtain m where m: "n = Suc m" "need_members kvs \<le> m"
    using "7.prems"(3) by (cases n) auto
  have wf: "wf_members kvs" "distinct (map fst kvs)" using "7.prems"(1) by simp_all
  show ?case
  proof (cases "kvs = []")
    case True
    then show ?thesis using parse_value_empty_object [of m r] m by simp
  next
    case False
    obtain cs where c: "join_comma (members_text kvs) = dquote # cs"
      using members_text_first [OF wf(1) False] by blast
    have "parse_members m (dquote # cs @ CHR ''}'' # r) = Some (kvs, r)"
      using "7.IH" [of m r] wf(1) False m(2) c by simp
    then have "parse_value (Suc m) (CHR ''{'' # dquote # cs @ CHR ''}'' # r) = Some (JObj kvs, r)"
      using wf(2) by (intro parse_value_object) (simp_all add: is_json_whitespace_def dquote_def)
    then show ?thesis using m(1) c by simp
  qed
next
  case 8
  then show ?case by simp
next
  case (9 v vs)
  obtain m where m: "n = Suc m" "need v \<le> m" "need_elements vs \<le> m"
    using "9.prems"(3) by (cases n) auto
  have wf: "json_wf v" "wf_elements vs" using "9.prems"(1) by simp_all
  show ?case
  proof (cases "vs = []")
    case True
    have "parse_value m (json_text v @ CHR '']'' # r) = Some (v, CHR '']'' # r)"
      using "9.IH"(1) [OF wf(1) follows_value_punctuation(1) m(2)] .
    then have "parse_elements (Suc m) (json_text v @ CHR '']'' # r) = Some ([v], r)"
      by (rule parse_elements_last)
    then show ?thesis using True m(1) by simp
  next
    case False
    let ?rest = "join_comma (elements_text vs) @ CHR '']'' # r"
    have "parse_value m (json_text v @ CHR '','' # ?rest) = Some (v, CHR '','' # ?rest)"
      using "9.IH"(1) [OF wf(1) follows_value_punctuation(2) m(2)] .
    moreover have "parse_elements m ?rest = Some (vs, r)"
      using "9.IH"(2) [OF wf(2) False m(3)] .
    ultimately have "parse_elements (Suc m) (json_text v @ CHR '','' # ?rest) = Some (v # vs, r)"
      by (rule parse_elements_more)
    then show ?thesis
      using False m(1) by (simp add: join_comma_Cons elements_text_Nil)
  qed
next
  case 10
  then show ?case by simp
next
  case (11 k v kvs)
  obtain m where m: "n = Suc m" "need v \<le> m" "need_members kvs \<le> m"
    using "11.prems"(3) by (cases n) auto
  have wf: "json_wf v" "wf_members kvs" using "11.prems"(1) by simp_all
  then have defined: "v \<noteq> JUndefined" by auto
  show ?case
  proof (cases "kvs = []")
    case True
    have "parse_value m (json_text v @ CHR ''}'' # r) = Some (v, CHR ''}'' # r)"
      using "11.IH"(2) [OF defined wf(1) follows_value_punctuation(3) m(2)] .
    then have "parse_members (Suc m) (quote k @ CHR '':'' # json_text v @ CHR ''}'' # r) =
               Some ([(k, v)], r)"
      by (rule parse_members_last)
    then show ?thesis using True m(1) defined by simp
  next
    case False
    let ?rest = "join_comma (members_text kvs) @ CHR ''}'' # r"
    have "parse_value m (json_text v @ CHR '','' # ?rest) = Some (v, CHR '','' # ?rest)"
      using "11.IH"(2) [OF defined wf(1) follows_value_punctuation(2) m(2)] .
    moreover have "parse_members m ?rest = Some (kvs, r)"
      using "11.IH"(3) [OF defined wf(2) False m(3)] .
    ultimately have "parse_members (Suc m) (quote k @ CHR '':'' # json_text v @ CHR '','' # ?rest) =
                     Some ((k, v) # kvs, r)"
      by (rule parse_members_more)
    then show ?thesis
      using False m(1) defined wf(2) by (simp add: join_comma_Cons members_text_Nil)
  qed
qed

subsection \<open>Fuel and newlines\<close>

lemma json_text_not_Nil: "json_text v \<noteq> []"
  using json_text_first [of v] by auto

lemma length_join_comma_Cons:
  "length (join_comma (t # ts)) = length t + (if ts = [] then 0 else Suc (length (join_comma ts)))"
  by (simp add: join_comma_Cons)

lemma need_le_length:
  "json_wf v \<Longrightarrow> need v \<le> length (json_text v)"
  "wf_elements vs \<Longrightarrow> need_elements vs \<le> Suc (length (join_comma (elements_text vs)))"
  "wf_members kvs \<Longrightarrow> need_members kvs \<le> Suc (length (join_comma (members_text kvs)))"
proof (induction v and vs and kvs rule: json_text_elements_text_members_text.induct)
  case (4 i)
  have "int_text i \<noteq> []" using int_text_first [of i] by auto
  then show ?case by (cases "int_text i") simp_all
next
  case (5 s)
  then show ?case by (simp add: quote_def)
next
  case (9 v vs)
  have "0 < length (json_text v)" using json_text_not_Nil [of v] by simp
  then show ?case
    using 9 by (auto simp: length_join_comma_Cons elements_text_Nil)
next
  case (11 k v kvs)
  then have defined: "v \<noteq> JUndefined" by auto
  have "0 < length (json_text v)" using json_text_not_Nil [of v] by simp
  then show ?case
    using 11 defined by (auto simp: length_join_comma_Cons members_text_Nil)
qed simp_all

lemma newline_not_in_int_text: "newline \<notin> set (int_text i)"
proof -
  have "c \<noteq> newline" if "is_digit c" for c
    using that by (auto simp: is_digit_def newline_def)
  then have "newline \<notin> set (nat_text n)" for n
    using nat_text_digits [of newline n] by blast
  then show ?thesis
    by (simp add: int_text_def newline_def)
qed

lemma set_join_comma: "set (join_comma ts) \<subseteq> insert CHR '','' (\<Union>t\<in>set ts. set t)"
  by (induction ts rule: join_comma.induct) auto

lemma newline_not_in_json_text:
  "newline \<notin> set (json_text v)"
  "\<forall>t\<in>set (elements_text vs). newline \<notin> set t"
  "\<forall>t\<in>set (members_text kvs). newline \<notin> set t"
proof (induction v and vs and kvs rule: json_text_elements_text_members_text.induct)
  case (4 i)
  then show ?case by (simp add: newline_not_in_int_text)
next
  case (5 s)
  then show ?case by (simp add: newline_not_in_quote)
next
  case (6 vs)
  then show ?case
    using set_join_comma [of "elements_text vs"] by (auto simp: newline_def)
next
  case (7 kvs)
  then show ?case
    using set_join_comma [of "members_text kvs"] by (auto simp: newline_def)
next
  case (11 k v kvs)
  then show ?case
    using newline_not_in_quote [of k] by (auto simp: newline_def)
qed (simp_all add: newline_def)

text \<open>
  \<open>json_parse\<close> reads every record that JSON can represent back from the text
  \<open>json_stringify\<close> writes for it, and the text has no newline: the hypotheses that the
  theorems on the log make about the platform hold on \<open>node_platform\<close> for these records.
\<close>

lemma json_parse_stringify:
  assumes "json_wf (JObj d)"
  shows "json_parse (json_stringify d) = Some d"
proof -
  let ?s = "json_text (JObj d)"
  have "need (JObj d) \<le> 2 * length ?s + 2"
    using need_le_length(1) [OF assms] by simp
  then have "parse_value (2 * length ?s + 2) (?s @ []) = Some (JObj d, [])"
    using parse_printed(1) [OF assms follows_value_punctuation(4)] by blast
  then show ?thesis
    by (simp add: json_parse_def json_stringify_def skip_whitespace_def)
qed

lemma node_platform_codec:
  assumes "json_wf (JObj d)"
  shows "JSON_parse node_platform (JSON_stringify node_platform d) = Some d"
    and "newline \<notin> set (JSON_stringify node_platform d)"
  using json_parse_stringify [OF assms] newline_not_in_json_text(1) [of "JObj d"]
  by (simp_all add: node_platform_def json_stringify_def)

lemma node_platform_roundtrip:
  assumes "\<forall>r\<in>set records. json_wf (JObj (data r))"
  shows "readFromFile node_platform db (writeToFile node_platform db records fs) =
         (Inr records, writeToFile node_platform db records fs)"
proof -
  have "read_text node_platform (dbString node_platform records) = Inr records"
    using assms node_platform_codec by (intro read_text_dbString) blast+
  then show ?thesis
    by (simp add: readFromFile_def writeToFile_def)
qed

end
